theory Spec2Isabelle
  imports
    Main
    "HOL-Library.Multiset"
    "HOL-Library.Char_ord"
    "HOL-Library.List_Lexorder"
    "HOL-Library.Product_Lexorder"
begin

section \<open>Numbers, strings and dates of the host language\<close>

text \<open>
  The timeline code computes with the results of \<^verbatim>\<open>new Date(iso).getTime()\<close>: an integral
  number of milliseconds, or NaN for a string that does not parse. On these it subtracts,
  takes absolute values and compares, starting the search for the nearest footprint from
  positive infinity. Time values are integers of magnitude at most 8.64e15, so the sign of a
  difference and its comparison with the two-minute window are the same in double precision
  and in the integers; the numbers are therefore modelled as integers extended by the two
  infinities and NaN, with the comparisons false on NaN.
\<close>

datatype jsnum = Fin int | PosInf | NegInf | NaN

fun js_neg :: "jsnum \<Rightarrow> jsnum" where
  "js_neg (Fin a) = Fin (- a)"
| "js_neg PosInf = NegInf"
| "js_neg NegInf = PosInf"
| "js_neg NaN = NaN"

fun js_add :: "jsnum \<Rightarrow> jsnum \<Rightarrow> jsnum" where
  "js_add (Fin a) (Fin b) = Fin (a + b)"
| "js_add NaN _ = NaN"
| "js_add _ NaN = NaN"
| "js_add PosInf NegInf = NaN"
| "js_add NegInf PosInf = NaN"
| "js_add PosInf _ = PosInf"
| "js_add NegInf _ = NegInf"
| "js_add _ PosInf = PosInf"
| "js_add _ NegInf = NegInf"

definition js_sub :: "jsnum \<Rightarrow> jsnum \<Rightarrow> jsnum" where
  "js_sub a b = js_add a (js_neg b)"

fun Math_abs :: "jsnum \<Rightarrow> jsnum" where
  "Math_abs (Fin a) = Fin \<bar>a\<bar>"
| "Math_abs PosInf = PosInf"
| "Math_abs NegInf = PosInf"
| "Math_abs NaN = NaN"

fun js_lt :: "jsnum \<Rightarrow> jsnum \<Rightarrow> bool" where
  "js_lt (Fin a) (Fin b) = (a < b)"
| "js_lt NaN _ = False"
| "js_lt _ NaN = False"
| "js_lt PosInf _ = False"
| "js_lt _ PosInf = True"
| "js_lt NegInf (Fin b) = True"
| "js_lt _ NegInf = False"

fun js_le :: "jsnum \<Rightarrow> jsnum \<Rightarrow> bool" where
  "js_le (Fin a) (Fin b) = (a \<le> b)"
| "js_le NaN _ = False"
| "js_le _ NaN = False"
| "js_le PosInf PosInf = True"
| "js_le PosInf _ = False"
| "js_le _ PosInf = True"
| "js_le NegInf _ = True"
| "js_le _ NegInf = False"

text \<open>Decimal rendering of a number, as \<^verbatim>\<open>String(n)\<close> and template literals do.\<close>

definition digit_char :: "nat \<Rightarrow> char" where
  "digit_char n = char_of (48 + n)"

fun digits :: "nat \<Rightarrow> string" where
  "digits n = (if n < 10 then [digit_char n] else digits (n div 10) @ [digit_char (n mod 10)])"

declare digits.simps [simp del]

fun String_of :: "jsnum \<Rightarrow> string" where
  "String_of (Fin a) = (if a < 0 then CHR ''-'' # digits (nat (- a)) else digits (nat a))"
| "String_of PosInf = ''Infinity''"
| "String_of NegInf = ''-Infinity''"
| "String_of NaN = ''NaN''"

definition padStart :: "nat \<Rightarrow> char \<Rightarrow> string \<Rightarrow> string" where
  "padStart n c s = replicate (n - length s) c @ s"

text \<open>
  The \<^verbatim>\<open>Date\<close> built-in is the environment of the component: how a string parses, and
  which local calendar day a time value falls on, depend on the engine and on the time zone
  of the process. It is a parameter of the model. \<open>timeValue\<close> is the time value of
  \<^verbatim>\<open>new Date(iso)\<close> (\<open>None\<close> for an invalid date); the three calendar fields are the
  local year, month (0 to 11) and day of the month of a valid time value.
\<close>

record DateApi =
  timeValue :: "string \<Rightarrow> int option"
  localYear :: "int \<Rightarrow> int"
  localMonth :: "int \<Rightarrow> nat"
  localDate :: "int \<Rightarrow> nat"

definition getTime :: "int option \<Rightarrow> jsnum" where
  "getTime d = (case d of None \<Rightarrow> NaN | Some t \<Rightarrow> Fin t)"

definition getFullYear :: "DateApi \<Rightarrow> int option \<Rightarrow> jsnum" where
  "getFullYear D d = (case d of None \<Rightarrow> NaN | Some t \<Rightarrow> Fin (localYear D t))"

definition getMonth :: "DateApi \<Rightarrow> int option \<Rightarrow> jsnum" where
  "getMonth D d = (case d of None \<Rightarrow> NaN | Some t \<Rightarrow> Fin (int (localMonth D t)))"

definition getDate :: "DateApi \<Rightarrow> int option \<Rightarrow> jsnum" where
  "getDate D d = (case d of None \<Rightarrow> NaN | Some t \<Rightarrow> Fin (int (localDate D t)))"

section \<open>Data model\<close>

text \<open>
  The coordinate fields are numbers the timeline never inspects; their type is left as a
  parameter.
\<close>

record 'n Footprint =
  id :: string
  trip_id :: string
  type :: string
  lat :: 'n
  lng :: 'n
  accuracy_m :: 'n
  place_text :: "string option"
  created_at :: string

record Moment =
  id :: string
  trip_id :: string
  user_id :: string
  text_m :: string
  photo_path :: "string option"
  created_at :: string

datatype 'n TimelineEntry =
    Combined (entry_created_at: string) (entry_moment: Moment) (entry_footprint: "'n Footprint")
  | MomentEntry (entry_created_at: string) (entry_moment: Moment)
  | FootprintEntry (entry_created_at: string) (entry_footprint: "'n Footprint")

section \<open>The timeline functions\<close>

definition dayKey :: "DateApi \<Rightarrow> string \<Rightarrow> string" where
  "dayKey D str =
     (let d = timeValue D str;
          yyyy = getFullYear D d;
          mm = padStart 2 CHR ''0'' (String_of (js_add (getMonth D d) (Fin 1)));
          dd = padStart 2 CHR ''0'' (String_of (getDate D d))
      in String_of yyyy @ ''-'' @ mm @ ''-'' @ dd)"

definition ms :: "DateApi \<Rightarrow> string \<Rightarrow> jsnum" where
  "ms D str = getTime (timeValue D str)"

text \<open>
  \<^verbatim>\<open>Array.prototype.sort\<close> with a comparison function. A comparison result of NaN counts
  as zero. The language requires the sort to be stable and, for a consistent comparison
  function, to return the sorted arrangement, which is then unique; it is modelled by the
  stable insertion sort. For an inconsistent comparison function (here: one that meets NaN
  next to distinct finite times) the language leaves the arrangement to the engine, and the
  model fixes one such arrangement; what is proved below for inputs of that kind rests
  only on the arrangement being a permutation of the array.
\<close>

fun insert_by :: "('a \<Rightarrow> 'a \<Rightarrow> jsnum) \<Rightarrow> 'a \<Rightarrow> 'a list \<Rightarrow> 'a list" where
  "insert_by cmp x [] = [x]"
| "insert_by cmp x (y # ys) =
     (if js_lt (Fin 0) (cmp x y) then y # insert_by cmp x ys else x # y # ys)"

definition array_sort :: "('a \<Rightarrow> 'a \<Rightarrow> jsnum) \<Rightarrow> 'a list \<Rightarrow> 'a list" where
  "array_sort cmp xs = foldr (insert_by cmp) xs []"

definition MATCH_WINDOW_MS :: int where
  "MATCH_WINDOW_MS = 2 * 60 * 1000"

text \<open>The inner loop: the nearest footprint not yet used, within the window.\<close>

fun nearest ::
  "DateApi \<Rightarrow> jsnum \<Rightarrow> string set \<Rightarrow> 'n Footprint list \<Rightarrow>
   'n Footprint option \<times> jsnum \<Rightarrow> 'n Footprint option \<times> jsnum" where
  "nearest D t usedFootprints [] (best, bestDelta) = (best, bestDelta)"
| "nearest D t usedFootprints (f # fs) (best, bestDelta) =
     (if Footprint.id f \<in> usedFootprints then nearest D t usedFootprints fs (best, bestDelta)
      else let dt = Math_abs (js_sub (ms D (Footprint.created_at f)) t)
           in if js_le dt (Fin MATCH_WINDOW_MS) \<and> js_lt dt bestDelta
              then nearest D t usedFootprints fs (Some f, dt)
              else nearest D t usedFootprints fs (best, bestDelta))"

text \<open>The loop over the moments, threading the set of used footprint ids and the output.\<close>

fun match_moments ::
  "DateApi \<Rightarrow> 'n Footprint list \<Rightarrow> Moment list \<Rightarrow>
   string set \<times> 'n TimelineEntry list \<Rightarrow> string set \<times> 'n TimelineEntry list" where
  "match_moments D fpsForMatching [] (usedFootprints, out) = (usedFootprints, out)"
| "match_moments D fpsForMatching (m # moments) (usedFootprints, out) =
     (let t = ms D (Moment.created_at m)
      in case fst (nearest D t usedFootprints fpsForMatching (None, PosInf)) of
           Some best \<Rightarrow>
             match_moments D fpsForMatching moments
               (insert (Footprint.id best) usedFootprints,
                out @ [Combined (Moment.created_at m) m best])
         | None \<Rightarrow>
             match_moments D fpsForMatching moments
               (usedFootprints, out @ [MomentEntry (Moment.created_at m) m]))"

text \<open>The loop that adds the footprints no moment has used.\<close>

fun remaining ::
  "string set \<Rightarrow> 'n Footprint list \<Rightarrow> 'n TimelineEntry list \<Rightarrow> 'n TimelineEntry list" where
  "remaining usedFootprints [] out = out"
| "remaining usedFootprints (f # fs) out =
     (if Footprint.id f \<in> usedFootprints then remaining usedFootprints fs out
      else remaining usedFootprints fs (out @ [FootprintEntry (Footprint.created_at f) f]))"

definition newest_first :: "DateApi \<Rightarrow> 'n Footprint \<Rightarrow> 'n Footprint \<Rightarrow> jsnum" where
  "newest_first D a b = js_sub (ms D (Footprint.created_at b)) (ms D (Footprint.created_at a))"

definition by_time :: "DateApi \<Rightarrow> bool \<Rightarrow> 'n TimelineEntry \<Rightarrow> 'n TimelineEntry \<Rightarrow> jsnum" where
  "by_time D isEnded a b =
     (if isEnded then js_sub (ms D (entry_created_at a)) (ms D (entry_created_at b))
      else js_sub (ms D (entry_created_at b)) (ms D (entry_created_at a)))"

definition merged :: "DateApi \<Rightarrow> Moment list \<Rightarrow> 'n Footprint list \<Rightarrow> 'n TimelineEntry list" where
  "merged D moments footprints =
     (let fpsForMatching = array_sort (newest_first D) footprints;
          (usedFootprints, out) = match_moments D fpsForMatching moments ({}, [])
      in remaining usedFootprints fpsForMatching out)"

definition entries ::
  "DateApi \<Rightarrow> Moment list \<Rightarrow> 'n Footprint list \<Rightarrow> bool \<Rightarrow> 'n TimelineEntry list" where
  "entries D moments footprints isEnded =
     array_sort (by_time D isEnded) (merged D moments footprints)"

text \<open>
  The \<^verbatim>\<open>Map\<close> from day key to the entries of that day keeps its keys in insertion order;
  it is an association list with one pair per key.
\<close>

fun map_push :: "string \<Rightarrow> 'a \<Rightarrow> (string \<times> 'a list) list \<Rightarrow> (string \<times> 'a list) list" where
  "map_push key it [] = [(key, [it])]"
| "map_push key it ((k, items) # rest) =
     (if k = key then (k, items @ [it]) # rest else (k, items) # map_push key it rest)"

definition grouped ::
  "DateApi \<Rightarrow> 'n TimelineEntry list \<Rightarrow> (string \<times> 'n TimelineEntry list) list" where
  "grouped D es = foldl (\<lambda>m it. map_push (dayKey D (entry_created_at it)) it m) [] es"

definition by_day :: "bool \<Rightarrow> string \<Rightarrow> string \<Rightarrow> jsnum" where
  "by_day isEnded a b =
     (if a = b then Fin 0
      else if isEnded then (if a > b then Fin 1 else Fin (- 1))
      else (if a > b then Fin (- 1) else Fin 1))"

definition dayKeys :: "bool \<Rightarrow> (string \<times> 'a list) list \<Rightarrow> string list" where
  "dayKeys isEnded g = array_sort (by_day isEnded) (map fst g)"

definition map_get :: "(string \<times> 'a list) list \<Rightarrow> string \<Rightarrow> 'a list" where
  "map_get g dk = (case map_of g dk of Some dayItems \<Rightarrow> dayItems | None \<Rightarrow> [])"

text \<open>
  What the component renders: the day keys in their sorted order, each with its entries
  sorted once more in the direction of the trip status.
\<close>

definition TimelineSection ::
  "DateApi \<Rightarrow> Moment list \<Rightarrow> 'n Footprint list \<Rightarrow> bool \<Rightarrow>
   (string \<times> 'n TimelineEntry list) list" where
  "TimelineSection D moments footprints isEnded =
     (let g = grouped D (entries D moments footprints isEnded)
      in map (\<lambda>dk. (dk, array_sort (by_time D isEnded) (map_get g dk))) (dayKeys isEnded g))"

section \<open>Reading the rendered timeline\<close>

definition all_entries :: "(string \<times> 'a list) list \<Rightarrow> 'a list" where
  "all_entries days = concat (map snd days)"

fun entry_footprints :: "'n TimelineEntry \<Rightarrow> 'n Footprint list" where
  "entry_footprints (Combined c m f) = [f]"
| "entry_footprints (MomentEntry c m) = []"
| "entry_footprints (FootprintEntry c f) = [f]"

fun entry_moments :: "'n TimelineEntry \<Rightarrow> Moment list" where
  "entry_moments (Combined c m f) = [m]"
| "entry_moments (MomentEntry c m) = [m]"
| "entry_moments (FootprintEntry c f) = []"

definition mentions_footprint :: "'n Footprint \<Rightarrow> 'n TimelineEntry \<Rightarrow> bool" where
  "mentions_footprint f e = (f \<in> set (entry_footprints e))"

definition mentions_moment :: "Moment \<Rightarrow> 'n TimelineEntry \<Rightarrow> bool" where
  "mentions_moment m e = (m \<in> set (entry_moments e))"

definition footprints_of :: "'n TimelineEntry list \<Rightarrow> 'n Footprint list" where
  "footprints_of es = concat (map entry_footprints es)"

definition moments_of :: "'n TimelineEntry list \<Rightarrow> Moment list" where
  "moments_of es = concat (map entry_moments es)"

definition entry_key :: "DateApi \<Rightarrow> 'n TimelineEntry \<Rightarrow> string" where
  "entry_key D e = dayKey D (entry_created_at e)"

text \<open>The two timestamps of a pair parse, and lie within the window of each other.\<close>

definition within_window :: "DateApi \<Rightarrow> Moment \<Rightarrow> 'n Footprint \<Rightarrow> bool" where
  "within_window D m f =
     (case (ms D (Moment.created_at m), ms D (Footprint.created_at f)) of
        (Fin a, Fin b) \<Rightarrow> \<bar>b - a\<bar> \<le> 120000
      | _ \<Rightarrow> False)"

text \<open>The decimal rendering of a number with a fixed count of digits.\<close>

fun fixed_digits :: "nat \<Rightarrow> nat \<Rightarrow> string" where
  "fixed_digits 0 n = []"
| "fixed_digits (Suc k) n = fixed_digits k (n div 10) @ [digit_char (n mod 10)]"

text \<open>
  The time and the local calendar day of an entry whose timestamp parses (the default
  values are never used where the timestamp does not parse).
\<close>

definition time_of :: "DateApi \<Rightarrow> 'n TimelineEntry \<Rightarrow> int" where
  "time_of D e = (case ms D (entry_created_at e) of Fin t \<Rightarrow> t | _ \<Rightarrow> 0)"

definition day_of :: "DateApi \<Rightarrow> 'n TimelineEntry \<Rightarrow> int \<times> nat \<times> nat" where
  "day_of D e =
     (case timeValue D (entry_created_at e) of
        Some t \<Rightarrow> (localYear D t, localMonth D t, localDate D t)
      | None \<Rightarrow> (0, 0, 0))"

text \<open>
  A timestamp that parses to a local date with a year of four digits, the month and the
  day of the month being in the ranges in which a \<^verbatim>\<open>Date\<close> object returns them.
\<close>

definition four_digit_year :: "DateApi \<Rightarrow> string \<Rightarrow> bool" where
  "four_digit_year D s =
     (case timeValue D s of
        None \<Rightarrow> False
      | Some t \<Rightarrow> 1000 \<le> localYear D t \<and> localYear D t \<le> 9999 \<and>
                 localMonth D t < 12 \<and> 1 \<le> localDate D t \<and> localDate D t \<le> 31)"

text \<open>The orders the rendered timeline is meant to have.\<close>

definition oldest_first :: "DateApi \<Rightarrow> 'n TimelineEntry list \<Rightarrow> bool" where
  "oldest_first D items = sorted_wrt (\<lambda>a b. time_of D a \<le> time_of D b) items"

definition newest_first_items :: "DateApi \<Rightarrow> 'n TimelineEntry list \<Rightarrow> bool" where
  "newest_first_items D items = sorted_wrt (\<lambda>a b. time_of D a \<ge> time_of D b) items"

definition day_before ::
  "DateApi \<Rightarrow> string \<times> 'n TimelineEntry list \<Rightarrow> string \<times> 'n TimelineEntry list \<Rightarrow> bool" where
  "day_before D g h = (\<forall>a\<in>set (snd g). \<forall>b\<in>set (snd h). day_of D a < day_of D b)"

definition one_day :: "DateApi \<Rightarrow> string \<times> 'n TimelineEntry list \<Rightarrow> bool" where
  "one_day D g = (\<forall>a\<in>set (snd g). \<forall>b\<in>set (snd g). day_of D a = day_of D b)"

definition oldest_day_first :: "DateApi \<Rightarrow> (string \<times> 'n TimelineEntry list) list \<Rightarrow> bool" where
  "oldest_day_first D days = sorted_wrt (day_before D) days"

definition newest_day_first :: "DateApi \<Rightarrow> (string \<times> 'n TimelineEntry list) list \<Rightarrow> bool" where
  "newest_day_first D days = sorted_wrt (\<lambda>g h. day_before D h g) days"

text \<open>A timeline reversed on both axes: the days, and the entries within each day.\<close>

definition flip_timeline :: "(string \<times> 'a list) list \<Rightarrow> (string \<times> 'a list) list" where
  "flip_timeline days = rev (map (\<lambda>(k, items). (k, rev items)) days)"

text \<open>
  The day key and the time of an entry, which tell apart the entries of one day. Every
  unparseable timestamp has the day key \<open>NaN-NaN-NaN\<close> and the time NaN, so two entries
  with unparseable timestamps have the same pair, whatever their strings are.
\<close>

definition day_and_time :: "DateApi \<Rightarrow> 'n TimelineEntry \<Rightarrow> string \<times> jsnum" where
  "day_and_time D e = (entry_key D e, ms D (entry_created_at e))"

text \<open>
  What the component reads of its environment: the answers of \<^verbatim>\<open>Date\<close> on the timestamps
  of its input. Two environments give the same dates for a timestamp when they parse it to
  the same time value and put that time value on the same local calendar day.
\<close>

definition stamps :: "Moment list \<Rightarrow> 'n Footprint list \<Rightarrow> string list" where
  "stamps moments footprints =
     map Moment.created_at moments @ map Footprint.created_at footprints"

definition same_dates :: "DateApi \<Rightarrow> DateApi \<Rightarrow> string \<Rightarrow> bool" where
  "same_dates D D' s =
     (timeValue D s = timeValue D' s \<and>
      (case timeValue D s of
         None \<Rightarrow> True
       | Some t \<Rightarrow> localYear D t = localYear D' t \<and> localMonth D t = localMonth D' t \<and>
                  localDate D t = localDate D' t))"

section \<open>The matching in the words of the specification\<close>

text \<open>
  A second description of the matching, following the specification and not the loops:
  the footprints are scanned from the newest to the oldest; the candidates of a moment are
  the footprints not yet used whose distance in time from the moment is within the window;
  the moment takes the candidate of least distance, the first such candidate of the scan
  if several have that distance; the moments are served in the order of the input, and a
  footprint of no moment becomes an entry of its own.
\<close>

definition delta :: "DateApi \<Rightarrow> jsnum \<Rightarrow> 'n Footprint \<Rightarrow> jsnum" where
  "delta D t f = Math_abs (js_sub (ms D (Footprint.created_at f)) t)"

definition candidates_spec ::
  "DateApi \<Rightarrow> jsnum \<Rightarrow> string set \<Rightarrow> 'n Footprint list \<Rightarrow> 'n Footprint list" where
  "candidates_spec D t used scan =
     filter (\<lambda>f. Footprint.id f \<notin> used \<and> js_le (delta D t f) (Fin 120000)) scan"

definition closest_spec ::
  "DateApi \<Rightarrow> jsnum \<Rightarrow> string set \<Rightarrow> 'n Footprint list \<Rightarrow> 'n Footprint option" where
  "closest_spec D t used scan =
     (let cs = candidates_spec D t used scan
      in find (\<lambda>f. list_all (\<lambda>g. js_le (delta D t f) (delta D t g)) cs) cs)"

fun greedy_spec ::
  "DateApi \<Rightarrow> 'n Footprint list \<Rightarrow> Moment list \<Rightarrow> string set \<Rightarrow> 'n TimelineEntry list" where
  "greedy_spec D scan [] used = []"
| "greedy_spec D scan (m # moments) used =
     (case closest_spec D (ms D (Moment.created_at m)) used scan of
        Some f \<Rightarrow>
          Combined (Moment.created_at m) m f
            # greedy_spec D scan moments (insert (Footprint.id f) used)
      | None \<Rightarrow> MomentEntry (Moment.created_at m) m # greedy_spec D scan moments used)"

definition footprint_time :: "DateApi \<Rightarrow> 'n Footprint \<Rightarrow> int" where
  "footprint_time D f = (case ms D (Footprint.created_at f) of Fin t \<Rightarrow> t | _ \<Rightarrow> 0)"

definition newest_to_oldest :: "DateApi \<Rightarrow> 'n Footprint list \<Rightarrow> 'n Footprint list" where
  "newest_to_oldest D footprints = sort_key (\<lambda>f. - footprint_time D f) footprints"

definition reconcile_scan ::
  "DateApi \<Rightarrow> 'n Footprint list \<Rightarrow> Moment list \<Rightarrow> 'n TimelineEntry list" where
  "reconcile_scan D scan moments =
     (let matched = greedy_spec D scan moments {}
      in matched @
         map (\<lambda>f. FootprintEntry (Footprint.created_at f) f)
           (filter (\<lambda>f. Footprint.id f \<notin> Footprint.id ` set (footprints_of matched)) scan))"

definition reconcile_spec ::
  "DateApi \<Rightarrow> Moment list \<Rightarrow> 'n Footprint list \<Rightarrow> 'n TimelineEntry list" where
  "reconcile_spec D moments footprints = reconcile_scan D (newest_to_oldest D footprints) moments"

text \<open>
  The scan of the inner loop, reduced to its comparisons: of the candidates met so far it
  keeps the earliest one of least distance.
\<close>

fun keep_least :: "('a \<Rightarrow> int) \<Rightarrow> 'a list \<Rightarrow> 'a \<Rightarrow> 'a" where
  "keep_least k [] b = b"
| "keep_least k (x # xs) b = (if k x < k b then keep_least k xs x else keep_least k xs b)"

definition distance :: "DateApi \<Rightarrow> jsnum \<Rightarrow> 'n Footprint \<Rightarrow> int" where
  "distance D t f = (case delta D t f of Fin d \<Rightarrow> d | _ \<Rightarrow> 0)"

section \<open>The arrays as mutable objects\<close>

text \<open>
  The functions above pass lists by value. To say that the component leaves its input
  arrays alone, the arrays are put in a store: one table of arrays per element type, an
  array being referred to by its index in the table. Allocation appends to the table;
  \<^verbatim>\<open>push\<close> and \<^verbatim>\<open>sort\<close> replace the contents at an index, as they work in place.
  \<^verbatim>\<open>[...footprints]\<close> allocates a new array with the contents of the old one. The
  \<^verbatim>\<open>for ... of\<close> loops read the array they run over from the store at every step, by
  index, while its length allows. The moments and footprints themselves are values: the
  code reads their fields and never assigns to them.
\<close>

record 'n store =
  moment_arrays :: "Moment list list"
  footprint_arrays :: "'n Footprint list list"
  entry_arrays :: "'n TimelineEntry list list"

definition spread_footprints :: "nat \<Rightarrow> 'n store \<Rightarrow> nat \<times> 'n store" where
  "spread_footprints a h =
     (length (footprint_arrays h),
      h\<lparr>footprint_arrays := footprint_arrays h @ [footprint_arrays h ! a]\<rparr>)"

definition sort_footprints ::
  "('n Footprint \<Rightarrow> 'n Footprint \<Rightarrow> jsnum) \<Rightarrow> nat \<Rightarrow> 'n store \<Rightarrow> 'n store" where
  "sort_footprints cmp a h =
     h\<lparr>footprint_arrays := (footprint_arrays h)[a := array_sort cmp (footprint_arrays h ! a)]\<rparr>"

definition new_entries :: "'n store \<Rightarrow> nat \<times> 'n store" where
  "new_entries h = (length (entry_arrays h), h\<lparr>entry_arrays := entry_arrays h @ [[]]\<rparr>)"

definition push_entry :: "nat \<Rightarrow> 'n TimelineEntry \<Rightarrow> 'n store \<Rightarrow> 'n store" where
  "push_entry a e h = h\<lparr>entry_arrays := (entry_arrays h)[a := entry_arrays h ! a @ [e]]\<rparr>"

definition sort_entries ::
  "('n TimelineEntry \<Rightarrow> 'n TimelineEntry \<Rightarrow> jsnum) \<Rightarrow> nat \<Rightarrow> 'n store \<Rightarrow> 'n store" where
  "sort_entries cmp a h =
     h\<lparr>entry_arrays := (entry_arrays h)[a := array_sort cmp (entry_arrays h ! a)]\<rparr>"

function match_loop ::
  "DateApi \<Rightarrow> nat \<Rightarrow> nat \<Rightarrow> nat \<Rightarrow> nat \<Rightarrow> string set \<Rightarrow> 'n store \<Rightarrow> string set \<times> 'n store" where
  "match_loop D fpsForMatching moments out i usedFootprints h =
     (if i < length (moment_arrays h ! moments) then
        (let m = moment_arrays h ! moments ! i;
             t = ms D (Moment.created_at m)
         in case fst (nearest D t usedFootprints (footprint_arrays h ! fpsForMatching)
                        (None, PosInf)) of
              Some best \<Rightarrow>
                match_loop D fpsForMatching moments out (Suc i)
                  (insert (Footprint.id best) usedFootprints)
                  (push_entry out (Combined (Moment.created_at m) m best) h)
            | None \<Rightarrow>
                match_loop D fpsForMatching moments out (Suc i) usedFootprints
                  (push_entry out (MomentEntry (Moment.created_at m) m) h))
      else (usedFootprints, h))"
  by pat_completeness auto
termination
  by (relation "measure (\<lambda>(D, fps, moments, out, i, used, h).
        length (moment_arrays h ! moments) - i)")
     (auto simp: push_entry_def)

function remaining_loop :: "nat \<Rightarrow> nat \<Rightarrow> nat \<Rightarrow> string set \<Rightarrow> 'n store \<Rightarrow> 'n store" where
  "remaining_loop fpsForMatching out i usedFootprints h =
     (if i < length (footprint_arrays h ! fpsForMatching) then
        (let f = footprint_arrays h ! fpsForMatching ! i
         in if Footprint.id f \<in> usedFootprints
            then remaining_loop fpsForMatching out (Suc i) usedFootprints h
            else remaining_loop fpsForMatching out (Suc i) usedFootprints
                   (push_entry out (FootprintEntry (Footprint.created_at f) f) h))
      else h)"
  by pat_completeness auto
termination
  by (relation "measure (\<lambda>(fps, out, i, used, h).
        length (footprint_arrays h ! fps) - i)")
     (auto simp: push_entry_def)

definition entries_store :: "DateApi \<Rightarrow> nat \<Rightarrow> nat \<Rightarrow> bool \<Rightarrow> 'n store \<Rightarrow> nat \<times> 'n store" where
  "entries_store D moments footprints isEnded h =
     (let (fpsForMatching, h1) = spread_footprints footprints h;
          h2 = sort_footprints (newest_first D) fpsForMatching h1;
          (out, h3) = new_entries h2;
          (usedFootprints, h4) = match_loop D fpsForMatching moments out 0 {} h3;
          h5 = remaining_loop fpsForMatching out 0 usedFootprints h4;
          h6 = sort_entries (by_time D isEnded) out h5
      in (out, h6))"

section \<open>A concrete environment: the proleptic Gregorian calendar in UTC\<close>

text \<open>
  For evaluating the component on concrete inputs: a process whose time zone is UTC. The
  calendar fields of a time value are computed from its day number; the strings the engine
  parses are given by a table of ISO 8601 instants and their time values, every other
  string being an invalid date.
\<close>

definition civil_from_days :: "int \<Rightarrow> int \<times> nat \<times> nat" where
  "civil_from_days n =
     (let z = n + 719468;
          era = z div 146097;
          doe = z - era * 146097;
          yoe = (doe - doe div 1460 + doe div 36524 - doe div 146096) div 365;
          doy = doe - (365 * yoe + yoe div 4 - yoe div 100);
          mp = (5 * doy + 2) div 153;
          d = doy - (153 * mp + 2) div 5 + 1;
          m = (if mp < 10 then mp + 3 else mp - 9);
          y = yoe + era * 400 + (if m \<le> 2 then 1 else 0)
      in (y, nat (m - 1), nat d))"

definition utc :: "(string \<times> int) list \<Rightarrow> DateApi" where
  "utc table =
     \<lparr> timeValue = map_of table,
       localYear = (\<lambda>t. fst (civil_from_days (t div 86400000))),
       localMonth = (\<lambda>t. fst (snd (civil_from_days (t div 86400000)))),
       localDate = (\<lambda>t. snd (snd (civil_from_days (t div 86400000)))) \<rparr>"

text \<open>
  A process whose local time is ahead of UTC by a fixed number of milliseconds, reading
  the same strings.
\<close>

definition zone :: "int \<Rightarrow> (string \<times> int) list \<Rightarrow> DateApi" where
  "zone ahead table =
     \<lparr> timeValue = map_of table,
       localYear = (\<lambda>t. fst (civil_from_days ((t + ahead) div 86400000))),
       localMonth = (\<lambda>t. fst (snd (civil_from_days ((t + ahead) div 86400000)))),
       localDate = (\<lambda>t. snd (snd (civil_from_days ((t + ahead) div 86400000)))) \<rparr>"

definition instants :: "(string \<times> int) list" where
  "instants =
     [(''2024-06-01T10:00:00Z'', 1717236000000),
      (''2024-06-01T10:00:15Z'', 1717236015000),
      (''2024-06-01T10:00:30Z'', 1717236030000),
      (''2024-06-01T10:01:00Z'', 1717236060000),
      (''2024-06-01T10:05:00Z'', 1717236300000),
      (''2024-06-02T09:00:00Z'', 1717318800000),
      (''0999-06-01T10:00:00Z'', - 30628677600000)]"

definition mk_moment :: "string \<Rightarrow> string \<Rightarrow> Moment" where
  "mk_moment i c =
     \<lparr> Moment.id = i, trip_id = ''t'', user_id = ''u'', text_m = [], photo_path = None,
       created_at = c \<rparr>"

definition mk_footprint :: "string \<Rightarrow> string \<Rightarrow> int Footprint" where
  "mk_footprint i c =
     \<lparr> Footprint.id = i, trip_id = ''t'', type = ''breadcrumb'', lat = 0, lng = 0,
       accuracy_m = 0, place_text = None, created_at = c \<rparr>"

text \<open>A store with one moments array and one footprints array, the older footprint first.\<close>

definition store0 :: "int store" where
  "store0 =
     \<lparr> moment_arrays = [[mk_moment ''m1'' ''2024-06-01T10:00:00Z'']],
       footprint_arrays =
         [[mk_footprint ''f1'' ''2024-06-01T10:01:00Z'', mk_footprint ''f2'' ''2024-06-01T10:05:00Z'']],
       entry_arrays = [] \<rparr>"

section \<open>Basic facts about sorting and the day map\<close>

lemma mset_insert_by: "mset (insert_by cmp x xs) = add_mset x (mset xs)"
  by (induction xs) auto

lemma array_sort_Cons: "array_sort cmp (x # xs) = insert_by cmp x (array_sort cmp xs)"
  by (simp add: array_sort_def)

lemma array_sort_Nil: "array_sort cmp [] = []"
  by (simp add: array_sort_def)

lemma mset_array_sort: "mset (array_sort cmp xs) = mset xs"
  by (induction xs) (auto simp: array_sort_Cons array_sort_Nil mset_insert_by)

lemma set_array_sort: "set (array_sort cmp xs) = set xs"
  by (metis mset_array_sort set_mset_mset)

lemma length_filter_mset_cong:
  "mset xs = mset ys \<Longrightarrow> length (filter P xs) = length (filter P ys)"
  by (metis mset_filter size_mset)

lemma map_get_push:
  "map_get (map_push k v g) k' = (if k' = k then map_get g k @ [v] else map_get g k')"
  by (induction g) (auto simp: map_get_def)

lemma keys_push:
  "map fst (map_push k v g) = (if k \<in> fst ` set g then map fst g else map fst g @ [k])"
  by (induction g) (force+)

lemma keys_push_set: "fst ` set (map_push k v g) = insert k (fst ` set g)"
proof -
  have "set (map fst (map_push k v g)) = insert k (set (map fst g))"
    unfolding keys_push by auto
  then show ?thesis by simp
qed

lemma foldl_push_get:
  "map_get (foldl (\<lambda>m it. map_push (key it) it m) g es) k
     = map_get g k @ filter (\<lambda>e. key e = k) es"
  by (induction es arbitrary: g) (auto simp: map_get_push)

lemma foldl_push_keys_set:
  "fst ` set (foldl (\<lambda>m it. map_push (key it) it m) g es) = fst ` set g \<union> key ` set es"
  by (induction es arbitrary: g) (simp_all add: keys_push_set)

lemma foldl_push_keys_distinct:
  "distinct (map fst g) \<Longrightarrow> distinct (map fst (foldl (\<lambda>m it. map_push (key it) it m) g es))"
proof (induction es arbitrary: g)
  case Nil
  then show ?case by simp
next
  case (Cons e es)
  have "distinct (map fst (map_push (key e) e g))"
    using Cons.prems unfolding keys_push by simp
  then show ?case using Cons.IH by simp
qed

lemma map_get_grouped: "map_get (grouped D es) k = filter (\<lambda>e. entry_key D e = k) es"
  unfolding grouped_def entry_key_def
  using foldl_push_get [of "\<lambda>it. dayKey D (entry_created_at it)" "[]" es k]
  by (simp add: map_get_def)

lemma keys_grouped_set: "fst ` set (grouped D es) = entry_key D ` set es"
  unfolding grouped_def entry_key_def
  using foldl_push_keys_set [of "\<lambda>it. dayKey D (entry_created_at it)" "[]" es]
  by simp

lemma keys_grouped_distinct: "distinct (map fst (grouped D es))"
  unfolding grouped_def
  by (rule foldl_push_keys_distinct) simp

lemma set_dayKeys: "set (dayKeys isEnded (grouped D es)) = entry_key D ` set es"
  by (simp add: dayKeys_def set_array_sort keys_grouped_set)

lemma distinct_dayKeys: "distinct (dayKeys isEnded (grouped D es))"
  unfolding dayKeys_def
  by (metis keys_grouped_distinct mset_array_sort mset_eq_imp_distinct_iff)

lemma TimelineSection_eq:
  "TimelineSection D moments footprints isEnded =
     map (\<lambda>dk. (dk, array_sort (by_time D isEnded)
                  (filter (\<lambda>e. entry_key D e = dk) (entries D moments footprints isEnded))))
         (dayKeys isEnded (grouped D (entries D moments footprints isEnded)))"
  by (simp add: TimelineSection_def Let_def map_get_grouped)

lemma mset_filter_disj:
  "\<forall>x\<in>set es. \<not> (P x \<and> Q x) \<Longrightarrow>
     mset (filter P es) + mset (filter Q es) = mset (filter (\<lambda>x. P x \<or> Q x) es)"
  by (induction es) auto

lemma mset_concat_groups:
  assumes "\<And>k xs. mset (f k xs) = mset xs"
  shows "distinct ks \<Longrightarrow>
     mset (concat (map (\<lambda>k. f k (filter (\<lambda>e. key e = k) es)) ks))
       = mset (filter (\<lambda>e. key e \<in> set ks) es)"
proof (induction ks)
  case Nil
  then show ?case by simp
next
  case (Cons k ks)
  have "mset (filter (\<lambda>e. key e = k) es) + mset (filter (\<lambda>e. key e \<in> set ks) es)
          = mset (filter (\<lambda>e. key e = k \<or> key e \<in> set ks) es)"
    using Cons.prems by (intro mset_filter_disj) auto
  with Cons show ?case by (simp add: assms)
qed

lemma mset_all_entries:
  "mset (all_entries (TimelineSection D moments footprints isEnded))
     = mset (merged D moments footprints)"
proof -
  let ?es = "entries D moments footprints isEnded"
  let ?ks = "dayKeys isEnded (grouped D ?es)"
  have "mset (all_entries (TimelineSection D moments footprints isEnded))
          = mset (concat (map (\<lambda>k. array_sort (by_time D isEnded)
                (filter (\<lambda>e. entry_key D e = k) ?es)) ?ks))"
    by (simp add: TimelineSection_eq all_entries_def comp_def)
  also have "\<dots> = mset (filter (\<lambda>e. entry_key D e \<in> set ?ks) ?es)"
    by (rule mset_concat_groups) (simp_all add: mset_array_sort distinct_dayKeys)
  also have "\<dots> = mset ?es"
    by (simp add: set_dayKeys)
  finally show ?thesis by (simp add: entries_def mset_array_sort)
qed

section \<open>The matching loops\<close>

lemma window_finite:
  "js_le (Math_abs (js_sub a b)) (Fin w) \<Longrightarrow> \<exists>x y. a = Fin x \<and> b = Fin y \<and> \<bar>x - y\<bar> \<le> w"
  by (cases a; cases b) (auto simp: js_sub_def)

lemma ms_cases: "ms D s = NaN \<or> (\<exists>t. ms D s = Fin t)"
  by (simp add: ms_def getTime_def split: option.splits)

lemma nearest_cases:
  "nearest D t used fs (b, bd) = (b', bd') \<Longrightarrow>
     (b' = b \<and> bd' = bd) \<or>
     (\<exists>f\<in>set fs. b' = Some f \<and> Footprint.id f \<notin> used \<and>
        bd' = Math_abs (js_sub (ms D (Footprint.created_at f)) t) \<and>
        js_le bd' (Fin MATCH_WINDOW_MS))"
proof (induction fs arbitrary: b bd)
  case Nil
  then show ?case by simp
next
  case (Cons f fs)
  show ?case
  proof (cases "Footprint.id f \<in> used")
    case True
    with Cons.prems have "nearest D t used fs (b, bd) = (b', bd')" by simp
    from Cons.IH [OF this] show ?thesis by auto
  next
    case False
    let ?dt = "Math_abs (js_sub (ms D (Footprint.created_at f)) t)"
    show ?thesis
    proof (cases "js_le ?dt (Fin MATCH_WINDOW_MS) \<and> js_lt ?dt bd")
      case True
      with False Cons.prems have "nearest D t used fs (Some f, ?dt) = (b', bd')"
        by (simp add: Let_def)
      from Cons.IH [OF this] True False show ?thesis by auto
    next
      case no: False
      with False Cons.prems have "nearest D t used fs (b, bd) = (b', bd')"
        by (auto simp: Let_def)
      from Cons.IH [OF this] show ?thesis by auto
    qed
  qed
qed

lemma nearest_Some:
  assumes "fst (nearest D (ms D (Moment.created_at m)) used fs (None, PosInf)) = Some f"
  shows "f \<in> set fs \<and> Footprint.id f \<notin> used \<and> within_window D m f"
proof -
  obtain b' bd' where eq: "nearest D (ms D (Moment.created_at m)) used fs (None, PosInf) = (b', bd')"
    by (cases "nearest D (ms D (Moment.created_at m)) used fs (None, PosInf)") auto
  with assms have b': "b' = Some f" by simp
  from nearest_cases [OF eq] b'
  obtain g where g: "g \<in> set fs" "Some f = Some g" "Footprint.id g \<notin> used"
    "js_le (Math_abs (js_sub (ms D (Footprint.created_at g)) (ms D (Moment.created_at m))))
       (Fin MATCH_WINDOW_MS)"
    by auto
  from window_finite [OF g(4)] obtain x y where
    "ms D (Footprint.created_at g) = Fin x" "ms D (Moment.created_at m) = Fin y"
    "\<bar>x - y\<bar> \<le> MATCH_WINDOW_MS" by auto
  then have "within_window D m g"
    by (simp add: within_window_def MATCH_WINDOW_MS_def)
  with g show ?thesis by simp
qed

lemma remaining_eq:
  "remaining used fs out =
     out @ map (\<lambda>f. FootprintEntry (Footprint.created_at f) f)
             (filter (\<lambda>f. Footprint.id f \<notin> used) fs)"
  by (induction fs arbitrary: out) auto

lemma moments_of_append [simp]: "moments_of (xs @ ys) = moments_of xs @ moments_of ys"
  by (simp add: moments_of_def)

lemma footprints_of_append [simp]: "footprints_of (xs @ ys) = footprints_of xs @ footprints_of ys"
  by (simp add: footprints_of_def)

lemma moments_of_simps [simp]:
  "moments_of [] = []"
  "moments_of (e # es) = entry_moments e @ moments_of es"
  by (simp_all add: moments_of_def)

lemma footprints_of_simps [simp]:
  "footprints_of [] = []"
  "footprints_of (e # es) = entry_footprints e @ footprints_of es"
  by (simp_all add: footprints_of_def)

lemma match_moments_moments:
  "match_moments D fps moments (used, out) = (used', out') \<Longrightarrow>
     moments_of out' = moments_of out @ moments"
proof (induction moments arbitrary: used out)
  case Nil
  then show ?case by simp
next
  case (Cons m moments)
  show ?case
  proof (cases "fst (nearest D (ms D (Moment.created_at m)) used fps (None, PosInf))")
    case None
    with Cons.prems have
      "match_moments D fps moments (used, out @ [MomentEntry (Moment.created_at m) m]) = (used', out')"
      by (simp add: Let_def)
    from Cons.IH [OF this] show ?thesis by simp
  next
    case (Some best)
    with Cons.prems have
      "match_moments D fps moments
         (insert (Footprint.id best) used, out @ [Combined (Moment.created_at m) m best]) = (used', out')"
      by (simp add: Let_def)
    from Cons.IH [OF this] show ?thesis by simp
  qed
qed

lemma match_moments_used:
  assumes "match_moments D fps moments (used, out) = (used', out')"
    and "Footprint.id ` set (footprints_of out) = used"
    and "distinct (map Footprint.id (footprints_of out))"
    and "set (footprints_of out) \<subseteq> set fps"
  shows "Footprint.id ` set (footprints_of out') = used' \<and>
         distinct (map Footprint.id (footprints_of out')) \<and>
         set (footprints_of out') \<subseteq> set fps"
  using assms
proof (induction moments arbitrary: used out)
  case Nil
  then show ?case by simp
next
  case (Cons m moments)
  show ?case
  proof (cases "fst (nearest D (ms D (Moment.created_at m)) used fps (None, PosInf))")
    case None
    with Cons.prems(1) have step:
      "match_moments D fps moments (used, out @ [MomentEntry (Moment.created_at m) m]) = (used', out')"
      by (simp add: Let_def)
    show ?thesis
      by (rule Cons.IH [OF step]) (use Cons.prems in simp_all)
  next
    case (Some best)
    with Cons.prems(1) have step:
      "match_moments D fps moments
         (insert (Footprint.id best) used, out @ [Combined (Moment.created_at m) m best]) = (used', out')"
      by (simp add: Let_def)
    from nearest_Some [OF Some] have best: "best \<in> set fps" "Footprint.id best \<notin> used"
      by simp_all
    show ?thesis
      by (rule Cons.IH [OF step]) (use Cons.prems best in auto)
  qed
qed

lemma match_moments_entries:
  assumes "match_moments D fps moments (used, out) = (used', out')"
    and "e \<in> set out'"
  shows "e \<in> set out \<or>
         (\<exists>m\<in>set moments. e = MomentEntry (Moment.created_at m) m \<or>
            (\<exists>f\<in>set fps. e = Combined (Moment.created_at m) m f \<and> within_window D m f))"
  using assms
proof (induction moments arbitrary: used out)
  case Nil
  then show ?case by simp
next
  case (Cons m moments)
  show ?case
  proof (cases "fst (nearest D (ms D (Moment.created_at m)) used fps (None, PosInf))")
    case None
    with Cons.prems(1) have step:
      "match_moments D fps moments (used, out @ [MomentEntry (Moment.created_at m) m]) = (used', out')"
      by (simp add: Let_def)
    from Cons.IH [OF step Cons.prems(2)] show ?thesis by auto
  next
    case (Some best)
    with Cons.prems(1) have step:
      "match_moments D fps moments
         (insert (Footprint.id best) used, out @ [Combined (Moment.created_at m) m best]) = (used', out')"
      by (simp add: Let_def)
    from nearest_Some [OF Some] have best: "best \<in> set fps" "within_window D m best"
      by simp_all
    from Cons.IH [OF step Cons.prems(2)] best show ?thesis by auto
  qed
qed

section \<open>Day keys as strings\<close>

lemma of_char_digit: "n < 10 \<Longrightarrow> of_char (digit_char n) = 48 + n"
  by (simp add: digit_char_def)

lemma digit_char_less: "a < 10 \<Longrightarrow> b < 10 \<Longrightarrow> digit_char a < digit_char b \<longleftrightarrow> a < b"
  by (simp add: less_char_def of_char_digit)

lemma digit_char_below_N: "n < 10 \<Longrightarrow> digit_char n < CHR ''N''"
  unfolding less_char_def by (simp add: of_char_digit)

lemma digits_head: "\<exists>k rest. k < 10 \<and> digits n = digit_char k # rest"
proof (induction n rule: digits.induct)
  case (1 n)
  show ?case
  proof (cases "n < 10")
    case True
    then show ?thesis by (subst digits.simps) auto
  next
    case False
    with 1 obtain k rest where "k < 10" "digits (n div 10) = digit_char k # rest" by auto
    with False show ?thesis by (subst digits.simps) auto
  qed
qed

lemma String_of_Fin_below_NaN: "String_of (Fin y) @ rest < ''NaN-NaN-NaN''"
proof -
  obtain k r where k: "k < 10" "digits (nat (if y < 0 then - y else y)) = digit_char k # r"
    using digits_head by blast
  show ?thesis
  proof (cases "y < 0")
    case True
    have "CHR ''-'' < CHR ''N''" by simp
    with True show ?thesis by simp
  next
    case False
    with k digit_char_below_N [OF k(1)] show ?thesis by simp
  qed
qed

lemma dayKey_invalid: "timeValue D s = None \<Longrightarrow> dayKey D s = ''NaN-NaN-NaN''"
  by (simp add: dayKey_def getFullYear_def getMonth_def getDate_def padStart_def)

lemma dayKey_valid:
  "timeValue D s = Some t \<Longrightarrow>
     dayKey D s = String_of (Fin (localYear D t)) @ ''-''
        @ padStart 2 CHR ''0'' (digits (localMonth D t + 1)) @ ''-''
        @ padStart 2 CHR ''0'' (digits (localDate D t))"
  by (simp add: dayKey_def getFullYear_def getMonth_def getDate_def nat_add_distrib)

lemma dayKey_valid_below_NaN: "timeValue D s = Some t \<Longrightarrow> dayKey D s < ''NaN-NaN-NaN''"
  unfolding dayKey_valid by (rule String_of_Fin_below_NaN)

lemma dayKey_le_NaN: "dayKey D s \<le> ''NaN-NaN-NaN''"
  by (cases "timeValue D s") (auto simp: dayKey_invalid dest: dayKey_valid_below_NaN less_imp_le)

lemma dayKey_NaN_iff: "dayKey D s = ''NaN-NaN-NaN'' \<longleftrightarrow> ms D s = NaN"
proof (cases "timeValue D s")
  case None
  then show ?thesis by (simp add: dayKey_invalid ms_def getTime_def)
next
  case (Some t)
  from dayKey_valid_below_NaN [OF this] have "dayKey D s \<noteq> ''NaN-NaN-NaN''" by simp
  with Some show ?thesis by (simp add: ms_def getTime_def)
qed

lemma length_fixed_digits [simp]: "length (fixed_digits k n) = k"
  by (induction k arbitrary: n) auto

lemma append_less_same_length:
  "length xs = length ys \<Longrightarrow> xs @ us < ys @ vs \<longleftrightarrow> xs < ys \<or> xs = ys \<and> us < vs"
  for xs ys :: "'a::linorder list"
  by (induction xs ys rule: list_induct2) auto

lemma less_base_10:
  "r < 10 \<Longrightarrow> r' < 10 \<Longrightarrow> 10 * q + r < 10 * q' + r' \<longleftrightarrow> q < q' \<or> q = q' \<and> r < r'"
  for q r q' r' :: nat
  by arith

lemma less_div_mod_10:
  "n < n' \<longleftrightarrow> n div 10 < n' div 10 \<or> n div 10 = n' div 10 \<and> n mod 10 < n' mod 10"
  for n n' :: nat
  using less_base_10 [of "n mod 10" "n' mod 10" "n div 10" "n' div 10"]
  by simp

lemma eq_iff_not_less: "a = b \<longleftrightarrow> \<not> a < b \<and> \<not> b < a" for a b :: "'a::linorder"
  by auto

lemma fixed_digits_less:
  "fixed_digits k n < fixed_digits k n' \<longleftrightarrow> n mod 10 ^ k < n' mod 10 ^ k"
proof (induction k arbitrary: n n')
  case 0
  then show ?case by simp
next
  case (Suc k)
  have m1: "x mod 10 ^ Suc k div 10 = (x div 10) mod 10 ^ k" for x :: nat
    by (simp add: mod_mult2_eq)
  have m2: "x mod 10 ^ Suc k mod 10 = x mod 10" for x :: nat
    by (simp add: mod_mod_cancel)
  have eq: "fixed_digits k (n div 10) = fixed_digits k (n' div 10)
              \<longleftrightarrow> (n div 10) mod 10 ^ k = (n' div 10) mod 10 ^ k"
    using eq_iff_not_less [of "fixed_digits k (n div 10)" "fixed_digits k (n' div 10)"]
      eq_iff_not_less [of "(n div 10) mod 10 ^ k" "(n' div 10) mod 10 ^ k"]
      Suc.IH [of "n div 10" "n' div 10"] Suc.IH [of "n' div 10" "n div 10"]
    by blast
  have "fixed_digits (Suc k) n < fixed_digits (Suc k) n'
          \<longleftrightarrow> fixed_digits k (n div 10) < fixed_digits k (n' div 10)
              \<or> fixed_digits k (n div 10) = fixed_digits k (n' div 10)
                \<and> [digit_char (n mod 10)] < [digit_char (n' mod 10)]"
    by (simp only: fixed_digits.simps) (rule append_less_same_length, simp)
  also have "\<dots> \<longleftrightarrow> (n div 10) mod 10 ^ k < (n' div 10) mod 10 ^ k
              \<or> (n div 10) mod 10 ^ k = (n' div 10) mod 10 ^ k \<and> n mod 10 < n' mod 10"
    by (simp add: Suc.IH eq digit_char_less)
  also have "\<dots> \<longleftrightarrow> n mod 10 ^ Suc k < n' mod 10 ^ Suc k"
    by (subst (3) less_div_mod_10) (simp only: m1 m2)
  finally show ?case .
qed

section \<open>The sorts\<close>

lemma insert_by_insort_key:
  fixes k :: "'a \<Rightarrow> 'b::linorder"
  assumes "\<forall>y\<in>set ys. js_lt (Fin 0) (cmp x y) \<longleftrightarrow> k y < k x"
  shows "insert_by cmp x ys = insort_key k x ys"
  using assms by (induction ys) auto

lemma array_sort_sort_key:
  fixes k :: "'a \<Rightarrow> 'b::linorder"
  assumes "\<forall>x\<in>set xs. \<forall>y\<in>set xs. js_lt (Fin 0) (cmp x y) \<longleftrightarrow> k y < k x"
  shows "array_sort cmp xs = sort_key k xs"
  using assms
proof (induction xs)
  case Nil
  then show ?case by (simp add: array_sort_Nil)
next
  case (Cons x xs)
  then have "array_sort cmp xs = sort_key k xs" by simp
  moreover have "insert_by cmp x (sort_key k xs) = insort_key k x (sort_key k xs)"
    using Cons.prems by (intro insert_by_insort_key) simp
  ultimately show ?case by (simp add: array_sort_Cons)
qed

lemma by_day_True_pos: "js_lt (Fin 0) (by_day True a b) \<longleftrightarrow> b < a"
  by (auto simp: by_day_def)

lemma by_day_False_pos: "js_lt (Fin 0) (by_day False a b) \<longleftrightarrow> a < b"
  by (auto simp: by_day_def)

lemma dayKeys_True: "dayKeys True g = sort (map fst g)"
  unfolding dayKeys_def
  by (rule array_sort_sort_key) (simp add: by_day_True_pos)

lemma insert_by_descending:
  fixes x :: "'a::linorder"
  assumes "\<And>a b. js_lt (Fin 0) (cmp a b) \<longleftrightarrow> a < b"
  shows "sorted_wrt (\<lambda>a b. b \<le> a) ys \<Longrightarrow> sorted_wrt (\<lambda>a b. b \<le> a) (insert_by cmp x ys)"
proof (induction ys)
  case Nil
  then show ?case by simp
next
  case (Cons y ys)
  have "set (insert_by cmp x ys) = insert x (set ys)"
    by (metis mset_insert_by set_mset_add_mset_insert set_mset_mset)
  with Cons show ?case by (auto simp: assms)
qed

lemma array_sort_descending:
  fixes xs :: "'a::linorder list"
  assumes "\<And>a b. js_lt (Fin 0) (cmp a b) \<longleftrightarrow> a < b"
  shows "sorted_wrt (\<lambda>a b. b \<le> a) (array_sort cmp xs)"
  by (induction xs) (simp_all add: array_sort_Nil array_sort_Cons insert_by_descending [OF assms])

lemma dayKeys_False:
  assumes "distinct (map fst g)"
  shows "dayKeys False g = rev (sort (map fst g))"
proof -
  let ?zs = "array_sort (by_day False) (map fst g)"
  have "sorted_wrt (\<lambda>a b. b \<le> a) ?zs"
    by (rule array_sort_descending) (rule by_day_False_pos)
  then have "sorted (rev ?zs)" by (simp add: sorted_wrt_rev)
  moreover have "distinct (rev ?zs)"
    using assms by (metis distinct_rev mset_array_sort mset_eq_imp_distinct_iff)
  moreover have "set (rev ?zs) = set (sort (map fst g))" by (simp add: set_array_sort)
  ultimately have "rev ?zs = sort (map fst g)"
    using assms by (intro sorted_distinct_set_unique) simp_all
  then show ?thesis by (metis dayKeys_def rev_rev_ident)
qed

lemma dayKeys_flip: "dayKeys False (grouped D es) = rev (dayKeys True (grouped D es))"
  by (simp add: dayKeys_True dayKeys_False keys_grouped_distinct)

text \<open>The keys depend on the set of entries only.\<close>

lemma dayKeys_True_set:
  "dayKeys True (grouped D es) = sorted_list_of_set (entry_key D ` set es)"
proof -
  have "sort (map fst (grouped D es)) = sorted_list_of_set (set (map fst (grouped D es)))"
    by (simp add: sorted_list_of_set_sort_remdups distinct_remdups_id keys_grouped_distinct
          del: set_map)
  then show ?thesis by (simp add: dayKeys_True keys_grouped_set)
qed

lemma by_time_True_pos:
  assumes "ms D (entry_created_at a) \<noteq> NaN" and "ms D (entry_created_at b) \<noteq> NaN"
  shows "js_lt (Fin 0) (by_time D True a b) \<longleftrightarrow> time_of D b < time_of D a"
  using assms ms_cases [of D "entry_created_at a"] ms_cases [of D "entry_created_at b"]
  by (auto simp: by_time_def time_of_def js_sub_def)

lemma by_time_False_pos:
  assumes "ms D (entry_created_at a) \<noteq> NaN" and "ms D (entry_created_at b) \<noteq> NaN"
  shows "js_lt (Fin 0) (by_time D False a b) \<longleftrightarrow> - time_of D b < - time_of D a"
  using assms ms_cases [of D "entry_created_at a"] ms_cases [of D "entry_created_at b"]
  by (auto simp: by_time_def time_of_def js_sub_def)

lemma array_sort_by_time_True:
  assumes "\<forall>e\<in>set xs. ms D (entry_created_at e) \<noteq> NaN"
  shows "array_sort (by_time D True) xs = sort_key (time_of D) xs"
  by (rule array_sort_sort_key) (use assms in \<open>simp add: by_time_True_pos\<close>)

lemma array_sort_by_time_False:
  assumes "\<forall>e\<in>set xs. ms D (entry_created_at e) \<noteq> NaN"
  shows "array_sort (by_time D False) xs = sort_key (\<lambda>e. - time_of D e) xs"
  by (rule array_sort_sort_key) (use assms in \<open>simp add: by_time_False_pos\<close>)

lemma sort_key_reverse:
  fixes k :: "'a \<Rightarrow> int"
  assumes "mset xs = mset ys" and "distinct (map k xs)"
  shows "sort_key k xs = rev (sort_key (\<lambda>x. - k x) ys)"
proof -
  let ?A = "sort_key k xs" and ?S = "sort_key (\<lambda>x. - k x) ys"
  have sets: "set ?A = set xs" "set (rev ?S) = set xs"
    using mset_eq_setD [OF assms(1)] by simp_all
  have "sorted (map (\<lambda>x. - k x) ?S)" by (rule sorted_sort_key)
  then have "sorted_wrt (\<lambda>a b. k b \<le> k a) ?S" by (simp add: sorted_wrt_map)
  then have "sorted_wrt (\<lambda>a b. k a \<le> k b) (rev ?S)" by (simp add: sorted_wrt_rev)
  then have sB: "sorted (map k (rev ?S))" by (simp add: sorted_wrt_map)
  have sA: "sorted (map k ?A)" by (rule sorted_sort_key)
  have mA: "mset (map k ?A) = mset (map k xs)" by simp
  have dA: "distinct (map k ?A)"
    using mset_eq_imp_distinct_iff [OF mA] assms(2) by simp
  have "mset (rev ?S) = mset xs" using assms(1) by simp
  then have mB: "mset (map k (rev ?S)) = mset (map k xs)" by (simp only: mset_map)
  have dB: "distinct (map k (rev ?S))"
    using mset_eq_imp_distinct_iff [OF mB] assms(2) by simp
  have "set (map k ?A) = set (map k (rev ?S))" using sets by (simp only: set_map)
  with sA dA sB dB have "map k ?A = map k (rev ?S)" by (intro sorted_distinct_set_unique)
  moreover have "inj_on k (set ?A \<union> set (rev ?S))"
    using assms(2) by (simp only: sets) (simp add: distinct_map)
  ultimately show ?thesis by (simp only: inj_on_map_eq_map)
qed

section \<open>Evaluation in the UTC environment\<close>

lemma mk_moment_sel:
  "Moment.created_at (mk_moment i c) = c" "Moment.id (mk_moment i c) = i"
  by (simp_all add: mk_moment_def)

lemma mk_footprint_sel:
  "Footprint.created_at (mk_footprint i c) = c" "Footprint.id (mk_footprint i c) = i"
  by (simp_all add: mk_footprint_def)

lemma mk_moment_eq: "mk_moment i c = mk_moment i' c' \<longleftrightarrow> i = i' \<and> c = c'"
  by (auto simp: mk_moment_def)

lemma ms_utc:
  "ms (utc instants) ''2024-06-01T10:00:00Z'' = Fin 1717236000000"
  "ms (utc instants) ''2024-06-01T10:00:15Z'' = Fin 1717236015000"
  "ms (utc instants) ''2024-06-01T10:00:30Z'' = Fin 1717236030000"
  "ms (utc instants) ''2024-06-01T10:01:00Z'' = Fin 1717236060000"
  "ms (utc instants) ''2024-06-01T10:05:00Z'' = Fin 1717236300000"
  "ms (utc instants) ''2024-06-02T09:00:00Z'' = Fin 1717318800000"
  "ms (utc instants) ''0999-06-01T10:00:00Z'' = Fin (- 30628677600000)"
  "ms (utc instants) ''garbage'' = NaN"
  by (simp_all add: ms_def getTime_def utc_def instants_def)

lemma digit_chars:
  "digit_char 0 = CHR ''0''" "digit_char 1 = CHR ''1''" "digit_char 2 = CHR ''2''"
  "digit_char 3 = CHR ''3''" "digit_char 4 = CHR ''4''" "digit_char 5 = CHR ''5''"
  "digit_char 6 = CHR ''6''" "digit_char 7 = CHR ''7''" "digit_char 8 = CHR ''8''"
  "digit_char 9 = CHR ''9''" "digit_char (Suc 0) = CHR ''1''"
  by code_simp+

lemma digits_small: "n < 10 \<Longrightarrow> digits n = [digit_char n]"
  by (subst digits.simps) simp

lemma digits_large: "10 \<le> n \<Longrightarrow> digits n = digits (n div 10) @ [digit_char (n mod 10)]"
  by (subst digits.simps) simp

lemma civil_utc:
  "civil_from_days 19875 = (2024, 5, 1)"
  "civil_from_days 19876 = (2024, 5, 2)"
  "civil_from_days (- 354499) = (999, 5, 1)"
  by code_simp+

lemma dayKey_utc_valid:
  assumes "map_of table s = Some t" and "civil_from_days (t div 86400000) = (y, m, d)"
  shows "dayKey (utc table) s = String_of (Fin y) @ ''-''
        @ padStart 2 CHR ''0'' (digits (m + 1)) @ ''-'' @ padStart 2 CHR ''0'' (digits d)"
  using assms by (subst dayKey_valid [where t = t]) (simp_all add: utc_def)

lemma dayKey_utc:
  "dayKey (utc instants) ''2024-06-01T10:00:00Z'' = ''2024-06-01''"
  "dayKey (utc instants) ''2024-06-01T10:00:15Z'' = ''2024-06-01''"
  "dayKey (utc instants) ''2024-06-01T10:00:30Z'' = ''2024-06-01''"
  "dayKey (utc instants) ''2024-06-01T10:01:00Z'' = ''2024-06-01''"
  "dayKey (utc instants) ''2024-06-01T10:05:00Z'' = ''2024-06-01''"
  "dayKey (utc instants) ''2024-06-02T09:00:00Z'' = ''2024-06-02''"
  "dayKey (utc instants) ''0999-06-01T10:00:00Z'' = ''999-06-01''"
  "dayKey (utc instants) ''garbage'' = ''NaN-NaN-NaN''"
         apply (subst dayKey_utc_valid [where t = 1717236000000 and y = 2024 and m = 5 and d = 1];
                simp add: instants_def civil_utc digits_small digits_large digit_chars padStart_def)
        apply (subst dayKey_utc_valid [where t = 1717236015000 and y = 2024 and m = 5 and d = 1];
               simp add: instants_def civil_utc digits_small digits_large digit_chars padStart_def)
       apply (subst dayKey_utc_valid [where t = 1717236030000 and y = 2024 and m = 5 and d = 1];
              simp add: instants_def civil_utc digits_small digits_large digit_chars padStart_def)
      apply (subst dayKey_utc_valid [where t = 1717236060000 and y = 2024 and m = 5 and d = 1];
             simp add: instants_def civil_utc digits_small digits_large digit_chars padStart_def)
     apply (subst dayKey_utc_valid [where t = 1717236300000 and y = 2024 and m = 5 and d = 1];
            simp add: instants_def civil_utc digits_small digits_large digit_chars padStart_def)
    apply (subst dayKey_utc_valid [where t = 1717318800000 and y = 2024 and m = 5 and d = 2];
           simp add: instants_def civil_utc digits_small digits_large digit_chars padStart_def)
   apply (subst dayKey_utc_valid [where t = "- 30628677600000" and y = 999 and m = 5 and d = 1];
          simp add: instants_def civil_utc digits_small digits_large digit_chars padStart_def)
  apply (rule dayKey_invalid, simp add: utc_def instants_def)
  done

lemmas eval_timeline = TimelineSection_def Let_def entries_def merged_def array_sort_def
  newest_first_def by_time_def js_sub_def grouped_def dayKeys_def by_day_def map_get_def
  MATCH_WINDOW_MS_def all_entries_def mk_moment_sel mk_footprint_sel ms_utc dayKey_utc

section \<open>Partition, coverage and the proximity window\<close>

lemma merged_eq:
  assumes "match_moments D (array_sort (newest_first D) footprints) moments ({}, []) = (used', out')"
  shows "merged D moments footprints =
           out' @ map (\<lambda>f. FootprintEntry (Footprint.created_at f) f)
                    (filter (\<lambda>f. Footprint.id f \<notin> used') (array_sort (newest_first D) footprints))"
  using assms by (simp add: merged_def Let_def remaining_eq)

lemma moments_of_FootprintEntries [simp]:
  "moments_of (map (\<lambda>f. FootprintEntry (c f) f) fs) = []"
  by (induction fs) auto

lemma footprints_of_FootprintEntries [simp]:
  "footprints_of (map (\<lambda>f. FootprintEntry (c f) f) fs) = fs"
  by (induction fs) auto

lemma moments_of_merged: "moments_of (merged D moments footprints) = moments"
proof -
  obtain used' out' where
    eq: "match_moments D (array_sort (newest_first D) footprints) moments ({}, []) = (used', out')"
    by (cases "match_moments D (array_sort (newest_first D) footprints) moments ({}, [])") auto
  from match_moments_moments [OF eq] show ?thesis
    by (simp add: merged_eq [OF eq])
qed

lemma mset_footprints_of_merged:
  assumes "distinct (map Footprint.id footprints)"
  shows "mset (footprints_of (merged D moments footprints)) = mset footprints"
proof -
  let ?fps = "array_sort (newest_first D) footprints"
  obtain used' out' where
    eq: "match_moments D ?fps moments ({}, []) = (used', out')"
    by (cases "match_moments D ?fps moments ({}, [])") auto
  have ids: "distinct (map Footprint.id ?fps)"
    using assms by (metis mset_array_sort mset_eq_imp_distinct_iff mset_map)
  then have dist: "distinct ?fps" and inj: "inj_on Footprint.id (set ?fps)"
    by (simp_all add: distinct_map)
  from match_moments_used [OF eq] have
    used: "Footprint.id ` set (footprints_of out') = used'"
    and d: "distinct (map Footprint.id (footprints_of out'))"
    and sub: "set (footprints_of out') \<subseteq> set ?fps"
    by simp_all
  from d have d': "distinct (footprints_of out')" by (simp add: distinct_map)
  have "set (footprints_of out') = set (filter (\<lambda>f. Footprint.id f \<in> used') ?fps)"
  proof (intro set_eqI iffI)
    fix f assume "f \<in> set (footprints_of out')"
    with used sub show "f \<in> set (filter (\<lambda>f. Footprint.id f \<in> used') ?fps)" by auto
  next
    fix f assume "f \<in> set (filter (\<lambda>f. Footprint.id f \<in> used') ?fps)"
    then have f: "f \<in> set ?fps" "Footprint.id f \<in> used'" by simp_all
    with used obtain g where g: "g \<in> set (footprints_of out')" "Footprint.id g = Footprint.id f"
      by auto
    with sub have "g \<in> set ?fps" by auto
    with inj f(1) g(2) have "g = f" by (auto dest: inj_onD)
    with g(1) show "f \<in> set (footprints_of out')" by simp
  qed
  with d' dist have "mset (footprints_of out') = mset (filter (\<lambda>f. Footprint.id f \<in> used') ?fps)"
    by (intro iffD1 [OF set_eq_iff_mset_eq_distinct]) simp_all
  moreover have "mset (filter (\<lambda>f. Footprint.id f \<in> used') ?fps)
                   + mset (filter (\<lambda>f. Footprint.id f \<notin> used') ?fps) = mset ?fps"
    by (induction ?fps) auto
  ultimately show ?thesis
    by (simp add: merged_eq [OF eq] mset_array_sort)
qed

lemma count_mentions_footprint:
  "length (filter (mentions_footprint f) es) = count_list (footprints_of es) f"
proof (induction es)
  case Nil
  then show ?case by simp
next
  case (Cons e es)
  then show ?case by (cases e) (simp_all add: mentions_footprint_def)
qed

lemma count_mentions_moment:
  "length (filter (mentions_moment m) es) = count_list (moments_of es) m"
proof (induction es)
  case Nil
  then show ?case by simp
next
  case (Cons e es)
  then show ?case by (cases e) (simp_all add: mentions_moment_def)
qed

text \<open>
  Claim C1 (partition of footprints). When the footprint ids are pairwise distinct, every
  footprint of the input is mentioned by exactly one entry of the rendered timeline, which
  is then a combined entry or a footprint-only entry: never by none and never by two.
\<close>

theorem partition_of_footprints:
  assumes "distinct (map Footprint.id footprints)" and "f \<in> set footprints"
  shows "length (filter (mentions_footprint f)
           (all_entries (TimelineSection D moments footprints isEnded))) = 1"
proof -
  have "length (filter (mentions_footprint f)
           (all_entries (TimelineSection D moments footprints isEnded)))
        = length (filter (mentions_footprint f) (merged D moments footprints))"
    by (rule length_filter_mset_cong) (rule mset_all_entries)
  also have "\<dots> = count (mset (footprints_of (merged D moments footprints))) f"
    by (simp add: count_mentions_footprint count_mset)
  also have "\<dots> = count (mset footprints) f"
    by (simp add: mset_footprints_of_merged [OF assms(1)])
  also have "\<dots> = 1"
    using assms by (metis distinct_map distinct_count_atmost_1 count_mset)
  finally show ?thesis .
qed

theorem partition_of_footprints_witness:
  "distinct (map Footprint.id
      [mk_footprint ''f1'' ''2024-06-01T10:01:00Z'', mk_footprint ''f2'' ''2024-06-01T10:05:00Z''])
   \<and> mk_footprint ''f2'' ''2024-06-01T10:05:00Z''
       \<in> set [mk_footprint ''f1'' ''2024-06-01T10:01:00Z'', mk_footprint ''f2'' ''2024-06-01T10:05:00Z'']
   \<and> length (filter (mentions_footprint (mk_footprint ''f2'' ''2024-06-01T10:05:00Z''))
         (all_entries (TimelineSection (utc instants) [mk_moment ''m1'' ''2024-06-01T10:00:00Z'']
            [mk_footprint ''f1'' ''2024-06-01T10:01:00Z'', mk_footprint ''f2'' ''2024-06-01T10:05:00Z'']
            True))) = 1"
proof -
  have h1: "distinct (map Footprint.id
      [mk_footprint ''f1'' ''2024-06-01T10:01:00Z'', mk_footprint ''f2'' ''2024-06-01T10:05:00Z''])"
    by (simp add: mk_footprint_def)
  have h2: "mk_footprint ''f2'' ''2024-06-01T10:05:00Z''
       \<in> set [mk_footprint ''f1'' ''2024-06-01T10:01:00Z'', mk_footprint ''f2'' ''2024-06-01T10:05:00Z'']"
    by simp
  show ?thesis
    using h1 h2 partition_of_footprints [OF h1 h2, of "utc instants"
      "[mk_moment ''m1'' ''2024-06-01T10:00:00Z'']" True]
    by simp
qed

text \<open>
  Claim C3 (coverage of moments). Every moment is mentioned by exactly as many entries of
  the rendered timeline as it occurs in the input list, and such an entry is a combined or
  a moment-only entry; a moment that occurs once is in exactly one entry.
\<close>

theorem coverage_of_moments:
  "length (filter (mentions_moment m)
     (all_entries (TimelineSection D moments footprints isEnded))) = count_list moments m"
proof -
  have "length (filter (mentions_moment m)
           (all_entries (TimelineSection D moments footprints isEnded)))
        = length (filter (mentions_moment m) (merged D moments footprints))"
    by (rule length_filter_mset_cong) (rule mset_all_entries)
  then show ?thesis
    by (simp add: count_mentions_moment moments_of_merged)
qed

theorem coverage_of_moments_witness:
  "length (filter (mentions_moment (mk_moment ''m1'' ''2024-06-01T10:00:00Z''))
     (all_entries (TimelineSection (utc instants)
        [mk_moment ''m1'' ''2024-06-01T10:00:00Z'', mk_moment ''m2'' ''2024-06-01T10:00:30Z'']
        [mk_footprint ''f1'' ''2024-06-01T10:00:15Z''] False))) = 1"
  using coverage_of_moments [of "mk_moment ''m1'' ''2024-06-01T10:00:00Z''" "utc instants"
      "[mk_moment ''m1'' ''2024-06-01T10:00:00Z'', mk_moment ''m2'' ''2024-06-01T10:00:30Z'']"
      "[mk_footprint ''f1'' ''2024-06-01T10:00:15Z'']" False]
  by (simp add: mk_moment_def)

lemma merged_entries:
  assumes "e \<in> set (merged D moments footprints)"
  shows "(\<exists>m\<in>set moments. e = MomentEntry (Moment.created_at m) m \<or>
            (\<exists>f\<in>set footprints. e = Combined (Moment.created_at m) m f \<and> within_window D m f))
         \<or> (\<exists>f\<in>set footprints. e = FootprintEntry (Footprint.created_at f) f)"
proof -
  let ?fps = "array_sort (newest_first D) footprints"
  obtain used' out' where
    eq: "match_moments D ?fps moments ({}, []) = (used', out')"
    by (cases "match_moments D ?fps moments ({}, [])") auto
  from assms have "e \<in> set out' \<or>
      e \<in> (\<lambda>f. FootprintEntry (Footprint.created_at f) f) ` set ?fps"
    by (auto simp: merged_eq [OF eq])
  then show ?thesis
  proof
    assume "e \<in> set out'"
    from match_moments_entries [OF eq this] show ?thesis
      by (auto simp: set_array_sort)
  next
    assume "e \<in> (\<lambda>f. FootprintEntry (Footprint.created_at f) f) ` set ?fps"
    then show ?thesis by (auto simp: set_array_sort)
  qed
qed

lemma set_all_entries:
  "set (all_entries (TimelineSection D moments footprints isEnded))
     = set (merged D moments footprints)"
  by (metis mset_all_entries set_mset_mset)

text \<open>
  Claim C2 (proximity window). In every combined entry of the rendered timeline both
  timestamps parse and they differ by at most 120000 ms in absolute value.
\<close>

theorem proximity_window:
  assumes "Combined c m f \<in> set (all_entries (TimelineSection D moments footprints isEnded))"
  shows "\<exists>a b. ms D (Moment.created_at m) = Fin a \<and> ms D (Footprint.created_at f) = Fin b
           \<and> \<bar>b - a\<bar> \<le> 120000"
proof -
  from assms have "Combined c m f \<in> set (merged D moments footprints)"
    by (simp add: set_all_entries)
  from merged_entries [OF this] have "within_window D m f" by auto
  then show ?thesis
    by (auto simp: within_window_def split: jsnum.splits)
qed

theorem proximity_window_witness:
  "Combined ''2024-06-01T10:00:00Z'' (mk_moment ''m1'' ''2024-06-01T10:00:00Z'')
       (mk_footprint ''f1'' ''2024-06-01T10:01:00Z'')
     \<in> set (all_entries (TimelineSection (utc instants)
          [mk_moment ''m1'' ''2024-06-01T10:00:00Z''] [mk_footprint ''f1'' ''2024-06-01T10:01:00Z'']
          True))
   \<and> (\<exists>a b. ms (utc instants) (Moment.created_at (mk_moment ''m1'' ''2024-06-01T10:00:00Z'')) = Fin a
          \<and> ms (utc instants) (Footprint.created_at (mk_footprint ''f1'' ''2024-06-01T10:01:00Z'')) = Fin b
          \<and> \<bar>b - a\<bar> \<le> 120000)"
proof -
  have h: "Combined ''2024-06-01T10:00:00Z'' (mk_moment ''m1'' ''2024-06-01T10:00:00Z'')
       (mk_footprint ''f1'' ''2024-06-01T10:01:00Z'')
     \<in> set (all_entries (TimelineSection (utc instants)
          [mk_moment ''m1'' ''2024-06-01T10:00:00Z''] [mk_footprint ''f1'' ''2024-06-01T10:01:00Z'']
          True))"
    by (simp add: eval_timeline)
  from proximity_window [OF h] h show ?thesis by blast
qed

section \<open>Unparseable timestamps\<close>

lemma within_window_parse:
  "within_window D m f \<Longrightarrow>
     ms D (Moment.created_at m) \<noteq> NaN \<and> ms D (Footprint.created_at f) \<noteq> NaN"
  by (auto simp: within_window_def split: jsnum.splits)

lemma moment_in_merged:
  assumes "m \<in> set moments"
  shows "\<exists>e\<in>set (merged D moments footprints). m \<in> set (entry_moments e)"
proof -
  from assms have "m \<in> set (moments_of (merged D moments footprints))"
    by (simp add: moments_of_merged)
  then show ?thesis by (auto simp: moments_of_def)
qed

lemma footprint_in_merged:
  assumes "distinct (map Footprint.id footprints)" and "f \<in> set footprints"
  shows "\<exists>e\<in>set (merged D moments footprints). f \<in> set (entry_footprints e)"
proof -
  from assms(2) have "f \<in># mset (footprints_of (merged D moments footprints))"
    by (simp add: mset_footprints_of_merged [OF assms(1)])
  then show ?thesis by (auto simp: footprints_of_def)
qed

lemma unparseable_moment_entry:
  assumes "m \<in> set moments" and "ms D (Moment.created_at m) = NaN"
  shows "MomentEntry (Moment.created_at m) m \<in> set (merged D moments footprints)"
proof -
  from moment_in_merged [OF assms(1)] obtain e where
    e: "e \<in> set (merged D moments footprints)" "m \<in> set (entry_moments e)" by blast
  from merged_entries [OF e(1)] e(2) assms(2) have "e = MomentEntry (Moment.created_at m) m"
    by (auto dest: within_window_parse)
  with e(1) show ?thesis by simp
qed

lemma unparseable_footprint_entry:
  assumes "distinct (map Footprint.id footprints)" and "f \<in> set footprints"
    and "ms D (Footprint.created_at f) = NaN"
  shows "FootprintEntry (Footprint.created_at f) f \<in> set (merged D moments footprints)"
proof -
  from footprint_in_merged [OF assms(1,2)] obtain e where
    e: "e \<in> set (merged D moments footprints)" "f \<in> set (entry_footprints e)" by blast
  from merged_entries [OF e(1)] e(2) assms(3) have "e = FootprintEntry (Footprint.created_at f) f"
    by (auto dest: within_window_parse)
  with e(1) show ?thesis by simp
qed

lemma unparseable_never_combined:
  assumes "Combined c m f \<in> set (merged D moments footprints)"
  shows "ms D (Moment.created_at m) \<noteq> NaN \<and> ms D (Footprint.created_at f) \<noteq> NaN"
proof -
  from merged_entries [OF assms] have "within_window D m f" by auto
  then show ?thesis by (rule within_window_parse)
qed

text \<open>
  Claim C10 (an unparseable timestamp never takes part in a match). A moment whose
  timestamp does not parse is never part of a combined entry and is emitted as a
  moment-only entry. A footprint whose timestamp does not parse is never part of a
  combined entry and, the footprint ids being pairwise distinct as the data model has
  them, is emitted as a footprint-only entry.
\<close>

theorem unparseable_never_matched:
  "(m \<in> set moments \<and> ms D (Moment.created_at m) = NaN \<longrightarrow>
      MomentEntry (Moment.created_at m) m
        \<in> set (all_entries (TimelineSection D moments footprints isEnded)) \<and>
      Combined c m g \<notin> set (all_entries (TimelineSection D moments footprints isEnded)))
   \<and> (f \<in> set footprints \<and> ms D (Footprint.created_at f) = NaN \<longrightarrow>
      Combined c m' f \<notin> set (all_entries (TimelineSection D moments footprints isEnded)) \<and>
      (distinct (map Footprint.id footprints) \<longrightarrow>
         FootprintEntry (Footprint.created_at f) f
           \<in> set (all_entries (TimelineSection D moments footprints isEnded))))"
  unfolding set_all_entries
  using unparseable_moment_entry [of m moments D footprints]
    unparseable_footprint_entry [of footprints f D moments]
    unparseable_never_combined [of c m g D moments footprints]
    unparseable_never_combined [of c m' f D moments footprints]
  by blast

lemma ms_utc_garbage: "ms (utc instants) ''garbage'' = NaN"
  by (simp add: ms_def getTime_def utc_def instants_def)

theorem unparseable_never_matched_witness:
  "(mk_moment ''m1'' ''garbage'' \<in> set [mk_moment ''m1'' ''garbage'']
     \<and> ms (utc instants) (Moment.created_at (mk_moment ''m1'' ''garbage'')) = NaN)
   \<and> (mk_footprint ''f1'' ''garbage'' \<in> set [mk_footprint ''f1'' ''garbage'']
     \<and> ms (utc instants) (Footprint.created_at (mk_footprint ''f1'' ''garbage'')) = NaN)
   \<and> distinct (map Footprint.id [mk_footprint ''f1'' ''garbage''])
   \<and> MomentEntry ''garbage'' (mk_moment ''m1'' ''garbage'')
        \<in> set (all_entries (TimelineSection (utc instants) [mk_moment ''m1'' ''garbage'']
              [mk_footprint ''f1'' ''garbage''] True))
   \<and> FootprintEntry ''garbage'' (mk_footprint ''f1'' ''garbage'')
        \<in> set (all_entries (TimelineSection (utc instants) [mk_moment ''m1'' ''garbage'']
              [mk_footprint ''f1'' ''garbage''] True))"
proof -
  have h1: "ms (utc instants) (Moment.created_at (mk_moment ''m1'' ''garbage'')) = NaN"
    by (simp add: mk_moment_def ms_utc_garbage)
  have h2: "ms (utc instants) (Footprint.created_at (mk_footprint ''f1'' ''garbage'')) = NaN"
    by (simp add: mk_footprint_def ms_utc_garbage)
  have c1: "Moment.created_at (mk_moment ''m1'' ''garbage'') = ''garbage''"
    by (simp add: mk_moment_def)
  have c2: "Footprint.created_at (mk_footprint ''f1'' ''garbage'') = ''garbage''"
    by (simp add: mk_footprint_def)
  show ?thesis
    using h1 h2 unparseable_never_matched [of "mk_moment ''m1'' ''garbage''"
      "[mk_moment ''m1'' ''garbage'']" "utc instants" "[mk_footprint ''f1'' ''garbage'']" True
      "''garbage''" "mk_footprint ''f1'' ''garbage''" "mk_footprint ''f1'' ''garbage''"
      "mk_moment ''m1'' ''garbage''"]
    by (simp add: c1 c2)
qed

section \<open>Where an unparseable timestamp is placed\<close>

lemma sorted_le_last:
  fixes xs :: "'a::linorder list"
  shows "sorted xs \<Longrightarrow> x \<in> set xs \<Longrightarrow> x \<le> last xs"
  by (induction xs) auto

lemma last_sorted_greatest:
  fixes xs :: "'a::linorder list"
  assumes "sorted xs" and "x \<in> set xs" and "\<forall>y\<in>set xs. y \<le> x"
  shows "last xs = x"
proof -
  from assms(2) have "xs \<noteq> []" by auto
  then have "last xs \<in> set xs" by simp
  with assms(3) have "last xs \<le> x" by simp
  moreover have "x \<le> last xs" using assms(1,2) by (rule sorted_le_last)
  ultimately show ?thesis by simp
qed

lemma set_entries: "set (entries D moments footprints isEnded) = set (merged D moments footprints)"
  by (simp add: entries_def set_array_sort)

lemma mset_entries: "mset (entries D moments footprints isEnded) = mset (merged D moments footprints)"
  by (simp add: entries_def mset_array_sort)

lemma entry_key_NaN_iff: "entry_key D e = ''NaN-NaN-NaN'' \<longleftrightarrow> ms D (entry_created_at e) = NaN"
  by (simp add: entry_key_def dayKey_NaN_iff)

lemma NaN_key_extreme:
  assumes "e \<in> set (merged D moments footprints)" and "ms D (entry_created_at e) = NaN"
  shows "last (dayKeys True (grouped D (entries D moments footprints True))) = ''NaN-NaN-NaN''"
    and "hd (dayKeys False (grouped D (entries D moments footprints False))) = ''NaN-NaN-NaN''"
proof -
  have key: "entry_key D e = ''NaN-NaN-NaN''" using assms(2) by (simp add: entry_key_NaN_iff)
  have greatest: "last (sort (map fst (grouped D (entries D moments footprints b)))) = ''NaN-NaN-NaN''"
    for b
  proof (rule last_sorted_greatest)
    show "sorted (sort (map fst (grouped D (entries D moments footprints b))))" by simp
    show "''NaN-NaN-NaN'' \<in> set (sort (map fst (grouped D (entries D moments footprints b))))"
      using assms(1) key [symmetric] by (auto simp: keys_grouped_set set_entries image_iff)
    show "\<forall>y\<in>set (sort (map fst (grouped D (entries D moments footprints b)))). y \<le> ''NaN-NaN-NaN''"
      by (auto simp: keys_grouped_set entry_key_def dayKey_le_NaN)
  qed
  show "last (dayKeys True (grouped D (entries D moments footprints True))) = ''NaN-NaN-NaN''"
    by (simp only: dayKeys_True greatest)
  have "''NaN-NaN-NaN'' \<in> set (sort (map fst (grouped D (entries D moments footprints False))))"
    using assms(1) key [symmetric] by (auto simp: keys_grouped_set set_entries image_iff)
  then have "sort (map fst (grouped D (entries D moments footprints False))) \<noteq> []"
    by (metis empty_iff empty_set)
  then show "hd (dayKeys False (grouped D (entries D moments footprints False))) = ''NaN-NaN-NaN''"
    by (simp only: dayKeys_False [OF keys_grouped_distinct] hd_rev greatest)
qed

lemma dayKeys_nonempty:
  assumes "e \<in> set (merged D moments footprints)"
  shows "dayKeys b (grouped D (entries D moments footprints b)) \<noteq> []"
proof -
  have "entry_key D e \<in> set (dayKeys b (grouped D (entries D moments footprints b)))"
    using assms by (simp add: set_dayKeys set_entries)
  then show ?thesis by (metis empty_iff empty_set)
qed

lemma NaN_group:
  assumes "e \<in> set (merged D moments footprints)" and "ms D (entry_created_at e) = NaN"
  shows "fst (if isEnded then last (TimelineSection D moments footprints isEnded)
              else hd (TimelineSection D moments footprints isEnded)) = ''NaN-NaN-NaN''
         \<and> e \<in> set (snd (if isEnded then last (TimelineSection D moments footprints isEnded)
              else hd (TimelineSection D moments footprints isEnded)))"
proof -
  have key: "entry_key D e = ''NaN-NaN-NaN''" using assms(2) by (simp add: entry_key_NaN_iff)
  have mem: "e \<in> set (array_sort (by_time D isEnded)
      (filter (\<lambda>x. entry_key D x = ''NaN-NaN-NaN'') (entries D moments footprints isEnded)))"
    using assms(1) key by (simp add: set_array_sort set_entries)
  show ?thesis
  proof (cases isEnded)
    case True
    with mem show ?thesis
      unfolding TimelineSection_eq
      by (simp add: last_map dayKeys_nonempty [OF assms(1)] NaN_key_extreme(1) [OF assms])
  next
    case False
    with mem show ?thesis
      unfolding TimelineSection_eq
      by (simp add: hd_map dayKeys_nonempty [OF assms(1)] NaN_key_extreme(2) [OF assms])
  qed
qed

text \<open>
  Claim C6, as amended. The component is a total function: an unparseable timestamp makes
  no step of it fail. The entry of a moment whose timestamp does not parse and, when the
  footprint ids are pairwise distinct, the entry of a footprint whose timestamp does not
  parse, is emitted in the day group with the key \<open>NaN-NaN-NaN\<close>. That key is ordered as
  the greatest day key: its group is the last one of an ended trip (oldest day first) and
  the first one of an active trip (newest day first).
\<close>

theorem malformed_timestamp_fallback:
  assumes "ms D (entry_created_at e) = NaN"
    and "(\<exists>m\<in>set moments. e = MomentEntry (Moment.created_at m) m) \<or>
         (distinct (map Footprint.id footprints) \<and>
          (\<exists>f\<in>set footprints. e = FootprintEntry (Footprint.created_at f) f))"
  shows "fst (if isEnded then last (TimelineSection D moments footprints isEnded)
              else hd (TimelineSection D moments footprints isEnded)) = ''NaN-NaN-NaN''
         \<and> e \<in> set (snd (if isEnded then last (TimelineSection D moments footprints isEnded)
              else hd (TimelineSection D moments footprints isEnded)))"
proof -
  have "e \<in> set (merged D moments footprints)"
    using assms unparseable_moment_entry [of _ moments D footprints]
      unparseable_footprint_entry [of footprints _ D moments]
    by auto
  from NaN_group [OF this assms(1)] show ?thesis .
qed

theorem malformed_timestamp_fallback_witness:
  "ms (utc instants) (entry_created_at (MomentEntry ''garbage'' (mk_moment ''m1'' ''garbage''))) = NaN
   \<and> (\<exists>m\<in>set [mk_moment ''m1'' ''garbage'', mk_moment ''m2'' ''2024-06-01T10:00:00Z''].
         MomentEntry ''garbage'' (mk_moment ''m1'' ''garbage'') = MomentEntry (Moment.created_at m) m)
   \<and> fst (last (TimelineSection (utc instants)
         [mk_moment ''m1'' ''garbage'', mk_moment ''m2'' ''2024-06-01T10:00:00Z'']
         ([] :: int Footprint list) True)) = ''NaN-NaN-NaN''
   \<and> MomentEntry ''garbage'' (mk_moment ''m1'' ''garbage'')
       \<in> set (snd (last (TimelineSection (utc instants)
         [mk_moment ''m1'' ''garbage'', mk_moment ''m2'' ''2024-06-01T10:00:00Z'']
         ([] :: int Footprint list) True)))"
proof -
  have h1: "ms (utc instants)
      (entry_created_at (MomentEntry ''garbage'' (mk_moment ''m1'' ''garbage'') :: int TimelineEntry)) = NaN"
    by (simp add: ms_utc_garbage)
  have h2: "\<exists>m\<in>set [mk_moment ''m1'' ''garbage'', mk_moment ''m2'' ''2024-06-01T10:00:00Z''].
         (MomentEntry ''garbage'' (mk_moment ''m1'' ''garbage'') :: int TimelineEntry)
           = MomentEntry (Moment.created_at m) m"
    by (simp add: mk_moment_def)
  from h2 have h2': "(\<exists>m\<in>set [mk_moment ''m1'' ''garbage'', mk_moment ''m2'' ''2024-06-01T10:00:00Z''].
         (MomentEntry ''garbage'' (mk_moment ''m1'' ''garbage'') :: int TimelineEntry)
           = MomentEntry (Moment.created_at m) m) \<or>
         (distinct (map Footprint.id ([] :: int Footprint list)) \<and>
          (\<exists>f\<in>set ([] :: int Footprint list).
             MomentEntry ''garbage'' (mk_moment ''m1'' ''garbage'') = FootprintEntry (Footprint.created_at f) f))"
    by (rule disjI1)
  from malformed_timestamp_fallback [OF h1 h2', of True] h1 h2 show ?thesis
    by simp
qed

text \<open>
  Claim C6 as stated fails in two ways. An ended trip lists the oldest day first, and the
  entry whose timestamp does not parse comes last there, after the entry of 2024: it has
  the greatest sort key, not the lowest. And where two footprints share an id, the
  unparseable one is dropped once the other has been matched.
\<close>

theorem malformed_timestamp_counterexample:
  "TimelineSection (utc instants)
      [mk_moment ''m1'' ''garbage'', mk_moment ''m2'' ''2024-06-01T10:00:00Z'']
      ([] :: int Footprint list) True
     = [(''2024-06-01'', [MomentEntry ''2024-06-01T10:00:00Z'' (mk_moment ''m2'' ''2024-06-01T10:00:00Z'')]),
        (''NaN-NaN-NaN'', [MomentEntry ''garbage'' (mk_moment ''m1'' ''garbage'')])]
   \<and> TimelineSection (utc instants)
      [mk_moment ''m1'' ''2024-06-01T10:00:30Z'']
      [mk_footprint ''x'' ''2024-06-01T10:00:15Z'', mk_footprint ''x'' ''garbage''] True
     = [(''2024-06-01'', [Combined ''2024-06-01T10:00:30Z'' (mk_moment ''m1'' ''2024-06-01T10:00:30Z'')
           (mk_footprint ''x'' ''2024-06-01T10:00:15Z'')])]"
  by (simp add: eval_timeline)

section \<open>Day keys of four-digit years\<close>

lemma fixed_digits_4:
  "fixed_digits 4 n = [digit_char (n div 10 div 10 div 10 mod 10),
        digit_char (n div 10 div 10 mod 10), digit_char (n div 10 mod 10), digit_char (n mod 10)]"
proof -
  have "fixed_digits (Suc (Suc (Suc (Suc 0)))) n = [digit_char (n div 10 div 10 div 10 mod 10),
        digit_char (n div 10 div 10 mod 10), digit_char (n div 10 mod 10), digit_char (n mod 10)]"
    by (simp only: fixed_digits.simps append_Nil append_Cons)
  moreover have "(4::nat) = Suc (Suc (Suc (Suc 0)))" by simp
  ultimately show ?thesis by (simp only:)
qed

lemma fixed_digits_2:
  "fixed_digits 2 n = [digit_char (n div 10 mod 10), digit_char (n mod 10)]"
proof -
  have "fixed_digits (Suc (Suc 0)) n = [digit_char (n div 10 mod 10), digit_char (n mod 10)]"
    by (simp only: fixed_digits.simps append_Nil append_Cons)
  moreover have "(2::nat) = Suc (Suc 0)" by simp
  ultimately show ?thesis by (simp only:)
qed

lemma digits_fixed_4:
  assumes "1000 \<le> n" and "n \<le> 9999"
  shows "digits n = fixed_digits 4 n"
proof -
  have a1: "10 \<le> n" using assms by linarith
  have a2: "10 \<le> n div 10" using assms by linarith
  have a3: "10 \<le> n div 10 div 10" using assms by linarith
  have a4: "n div 10 div 10 div 10 < 10" using assms by linarith
  have "digits n = digits (n div 10) @ [digit_char (n mod 10)]"
    by (rule digits_large [OF a1])
  also have "digits (n div 10) = digits (n div 10 div 10) @ [digit_char (n div 10 mod 10)]"
    by (rule digits_large [OF a2])
  also have "digits (n div 10 div 10)
      = digits (n div 10 div 10 div 10) @ [digit_char (n div 10 div 10 mod 10)]"
    by (rule digits_large [OF a3])
  also have "digits (n div 10 div 10 div 10) = [digit_char (n div 10 div 10 div 10)]"
    by (rule digits_small [OF a4])
  finally have "digits n = [digit_char (n div 10 div 10 div 10), digit_char (n div 10 div 10 mod 10),
                    digit_char (n div 10 mod 10), digit_char (n mod 10)]"
    by (simp only: append_Nil append_Cons)
  then show ?thesis
    by (simp only: fixed_digits_4 mod_less [OF a4])
qed

lemma padStart_fixed_2:
  assumes "n < 100"
  shows "padStart 2 CHR ''0'' (digits n) = fixed_digits 2 n"
proof (cases "n < 10")
  case True
  then have "n div 10 mod 10 = 0" by simp
  moreover have "padStart 2 CHR ''0'' [digit_char n] = [digit_char 0, digit_char n]"
    by (simp add: padStart_def digit_chars(1))
  ultimately show ?thesis
    by (simp only: fixed_digits_2 digits_small [OF True] mod_less [OF True])
next
  case False
  with assms have b: "10 \<le> n" "n div 10 < 10" by linarith+
  have "digits n = [digit_char (n div 10), digit_char (n mod 10)]"
    by (simp only: digits_large [OF b(1)] digits_small [OF b(2)] append_Nil append_Cons)
  moreover have "padStart 2 CHR ''0'' [digit_char (n div 10), digit_char (n mod 10)]
      = [digit_char (n div 10), digit_char (n mod 10)]"
    by (simp add: padStart_def)
  ultimately show ?thesis
    by (simp only: fixed_digits_2 mod_less [OF b(2)])
qed

lemma dayKey_fixed:
  assumes "four_digit_year D s"
  shows "\<exists>t. timeValue D s = Some t \<and>
           dayKey D s = fixed_digits 4 (nat (localYear D t)) @ ''-''
             @ fixed_digits 2 (localMonth D t + 1) @ ''-'' @ fixed_digits 2 (localDate D t)"
proof -
  from assms obtain t where t: "timeValue D s = Some t"
    and y: "1000 \<le> localYear D t" "localYear D t \<le> 9999"
    and m: "localMonth D t < 12" and d: "localDate D t \<le> 31"
    by (auto simp: four_digit_year_def split: option.splits)
  from y have "String_of (Fin (localYear D t)) = fixed_digits 4 (nat (localYear D t))"
    by (simp add: digits_fixed_4)
  moreover from m have "padStart 2 CHR ''0'' (digits (localMonth D t + 1))
      = fixed_digits 2 (localMonth D t + 1)"
    by (intro padStart_fixed_2) simp
  moreover from d have "padStart 2 CHR ''0'' (digits (localDate D t)) = fixed_digits 2 (localDate D t)"
    by (intro padStart_fixed_2) simp
  ultimately show ?thesis using t by (simp add: dayKey_valid [OF t])
qed

lemma fixed_digits_eq: "fixed_digits k n = fixed_digits k n' \<longleftrightarrow> n mod 10 ^ k = n' mod 10 ^ k"
  using eq_iff_not_less [of "fixed_digits k n" "fixed_digits k n'"]
    eq_iff_not_less [of "n mod 10 ^ k" "n' mod 10 ^ k"]
    fixed_digits_less [of k n n'] fixed_digits_less [of k n' n]
  by blast

lemma fixed_key_less:
  assumes "y < 10000" "y' < 10000" "m < 100" "m' < 100" "d < 100" "d' < 100"
  shows "fixed_digits 4 y @ ''-'' @ fixed_digits 2 m @ ''-'' @ fixed_digits 2 d
           < fixed_digits 4 y' @ ''-'' @ fixed_digits 2 m' @ ''-'' @ fixed_digits 2 d'
         \<longleftrightarrow> (y, m, d) < (y', m', d')"
proof -
  have "fixed_digits 4 y @ ''-'' @ fixed_digits 2 m @ ''-'' @ fixed_digits 2 d
           < fixed_digits 4 y' @ ''-'' @ fixed_digits 2 m' @ ''-'' @ fixed_digits 2 d'
        \<longleftrightarrow> fixed_digits 4 y < fixed_digits 4 y' \<or> fixed_digits 4 y = fixed_digits 4 y' \<and>
            (fixed_digits 2 m @ ''-'' @ fixed_digits 2 d < fixed_digits 2 m' @ ''-'' @ fixed_digits 2 d')"
    by (subst append_less_same_length) simp_all
  also have "fixed_digits 2 m @ ''-'' @ fixed_digits 2 d < fixed_digits 2 m' @ ''-'' @ fixed_digits 2 d'
        \<longleftrightarrow> fixed_digits 2 m < fixed_digits 2 m' \<or> fixed_digits 2 m = fixed_digits 2 m' \<and>
            fixed_digits 2 d < fixed_digits 2 d'"
    by (subst append_less_same_length) simp_all
  finally show ?thesis
    using assms by (simp add: fixed_digits_less fixed_digits_eq) auto
qed

lemma entry_key_less:
  assumes "four_digit_year D (entry_created_at a)" and "four_digit_year D (entry_created_at b)"
  shows "entry_key D a < entry_key D b \<longleftrightarrow> day_of D a < day_of D b"
proof -
  from dayKey_fixed [OF assms(1)] obtain t where t: "timeValue D (entry_created_at a) = Some t"
    "dayKey D (entry_created_at a) = fixed_digits 4 (nat (localYear D t)) @ ''-''
       @ fixed_digits 2 (localMonth D t + 1) @ ''-'' @ fixed_digits 2 (localDate D t)"
    by blast
  from dayKey_fixed [OF assms(2)] obtain u where u: "timeValue D (entry_created_at b) = Some u"
    "dayKey D (entry_created_at b) = fixed_digits 4 (nat (localYear D u)) @ ''-''
       @ fixed_digits 2 (localMonth D u + 1) @ ''-'' @ fixed_digits 2 (localDate D u)"
    by blast
  from assms t(1) u(1) have r:
    "1000 \<le> localYear D t" "localYear D t \<le> 9999" "localMonth D t < 12" "localDate D t \<le> 31"
    "1000 \<le> localYear D u" "localYear D u \<le> 9999" "localMonth D u < 12" "localDate D u \<le> 31"
    by (simp_all add: four_digit_year_def)
  have "entry_key D a < entry_key D b \<longleftrightarrow>
      (nat (localYear D t), localMonth D t + 1, localDate D t)
        < (nat (localYear D u), localMonth D u + 1, localDate D u)"
    unfolding entry_key_def t(2) u(2) using r by (intro fixed_key_less) simp_all
  also have "\<dots> \<longleftrightarrow> day_of D a < day_of D b"
    using r by (auto simp: day_of_def t(1) u(1))
  finally show ?thesis .
qed

lemma entry_key_eq:
  assumes "four_digit_year D (entry_created_at a)" and "four_digit_year D (entry_created_at b)"
  shows "entry_key D a = entry_key D b \<longleftrightarrow> day_of D a = day_of D b"
  using eq_iff_not_less [of "entry_key D a" "entry_key D b"]
    eq_iff_not_less [of "day_of D a" "day_of D b"]
    entry_key_less [OF assms] entry_key_less [OF assms(2,1)]
  by blast

section \<open>Sort direction\<close>

lemma merged_created_at:
  assumes "e \<in> set (merged D moments footprints)"
  shows "entry_created_at e \<in> Moment.created_at ` set moments \<union> Footprint.created_at ` set footprints"
  using merged_entries [OF assms] by auto

lemma four_digit_parses: "four_digit_year D s \<Longrightarrow> ms D s \<noteq> NaN"
  by (auto simp: four_digit_year_def ms_def getTime_def split: option.splits)

lemma group_set:
  "set (array_sort (by_time D isEnded)
      (filter (\<lambda>e. entry_key D e = dk) (entries D moments footprints isEnded)))
   = {e \<in> set (merged D moments footprints). entry_key D e = dk}"
  by (auto simp: set_array_sort set_entries)

lemma sorted_wrt_map_mono:
  assumes "sorted_wrt R ks" and "\<And>a b. a \<in> set ks \<Longrightarrow> b \<in> set ks \<Longrightarrow> R a b \<Longrightarrow> Q (F a) (F b)"
  shows "sorted_wrt Q (map F ks)"
  unfolding sorted_wrt_map
  by (rule sorted_wrt_mono_rel [OF _ assms(1)]) (use assms(2) in blast)

lemma dayKeys_True_strict: "sorted_wrt (<) (dayKeys True (grouped D es))"
  by (simp add: dayKeys_True strict_sorted_iff keys_grouped_distinct)

lemma dayKeys_False_strict: "sorted_wrt (\<lambda>a b. b < a) (dayKeys False (grouped D es))"
proof -
  have "sorted_wrt (<) (sort (map fst (grouped D es)))"
    by (simp add: strict_sorted_iff keys_grouped_distinct)
  then show ?thesis
    by (simp add: dayKeys_False keys_grouped_distinct sorted_wrt_rev)
qed

lemma group_oldest_first:
  assumes "\<forall>e\<in>set xs. ms D (entry_created_at e) \<noteq> NaN"
  shows "oldest_first D (array_sort (by_time D True) xs)"
proof -
  have "sorted (map (time_of D) (sort_key (time_of D) xs))" by (rule sorted_sort_key)
  then show ?thesis
    by (simp add: oldest_first_def array_sort_by_time_True [OF assms] sorted_wrt_map)
qed

lemma group_newest_first:
  assumes "\<forall>e\<in>set xs. ms D (entry_created_at e) \<noteq> NaN"
  shows "newest_first_items D (array_sort (by_time D False) xs)"
proof -
  have "sorted (map (\<lambda>e. - time_of D e) (sort_key (\<lambda>e. - time_of D e) xs))"
    by (rule sorted_sort_key)
  then show ?thesis
    by (simp add: newest_first_items_def array_sort_by_time_False [OF assms] sorted_wrt_map)
qed

text \<open>
  What the code achieves of the sort direction. When every timestamp parses to a local
  date whose year has four digits: the day groups of an ended trip are in ascending order
  of their calendar day and the entries of each group in ascending order of time; the day
  groups of an active trip are in descending order of their calendar day and the entries
  of each group in descending order of time. Each group is not empty and holds the
  entries of one day.
\<close>

theorem sort_direction:
  assumes "\<forall>m\<in>set moments. four_digit_year D (Moment.created_at m)"
    and "\<forall>f\<in>set footprints. four_digit_year D (Footprint.created_at f)"
  shows "(isEnded \<longrightarrow>
            oldest_day_first D (TimelineSection D moments footprints isEnded) \<and>
            (\<forall>g\<in>set (TimelineSection D moments footprints isEnded). oldest_first D (snd g)))
       \<and> (\<not> isEnded \<longrightarrow>
            newest_day_first D (TimelineSection D moments footprints isEnded) \<and>
            (\<forall>g\<in>set (TimelineSection D moments footprints isEnded). newest_first_items D (snd g)))
       \<and> (\<forall>g\<in>set (TimelineSection D moments footprints isEnded). one_day D g \<and> snd g \<noteq> [])"
proof -
  let ?E = "entries D moments footprints isEnded"
  let ?F = "\<lambda>dk. (dk, array_sort (by_time D isEnded) (filter (\<lambda>e. entry_key D e = dk) ?E))"
  let ?ks = "dayKeys isEnded (grouped D ?E)"
  have TS: "TimelineSection D moments footprints isEnded = map ?F ?ks"
    by (rule TimelineSection_eq)
  have fd: "four_digit_year D (entry_created_at e)" if "e \<in> set (merged D moments footprints)" for e
    using merged_created_at [OF that] assms by auto
  have parse: "\<forall>e\<in>set (filter (\<lambda>e. entry_key D e = dk) ?E). ms D (entry_created_at e) \<noteq> NaN" for dk
    using fd four_digit_parses by (fastforce simp: set_entries)
  have before: "day_before D (?F a) (?F b)" if "a < b" for a b
    unfolding day_before_def
  proof (intro ballI)
    fix x y assume "x \<in> set (snd (?F a))" "y \<in> set (snd (?F b))"
    then have x: "x \<in> set (merged D moments footprints)" "entry_key D x = a"
      and y: "y \<in> set (merged D moments footprints)" "entry_key D y = b"
      by (simp_all add: group_set)
    with that have "entry_key D x < entry_key D y" by simp
    then show "day_of D x < day_of D y"
      using entry_key_less [OF fd [OF x(1)] fd [OF y(1)]] by simp
  qed
  have same: "one_day D (?F a)" for a
    unfolding one_day_def
  proof (intro ballI)
    fix x y assume "x \<in> set (snd (?F a))" "y \<in> set (snd (?F a))"
    then have x: "x \<in> set (merged D moments footprints)" "entry_key D x = a"
      and y: "y \<in> set (merged D moments footprints)" "entry_key D y = a"
      by (simp_all add: group_set)
    then show "day_of D x = day_of D y"
      using entry_key_eq [OF fd [OF x(1)] fd [OF y(1)]] by simp
  qed
  have nonempty: "snd (?F a) \<noteq> []" if "a \<in> set ?ks" for a
  proof -
    from that obtain e where "e \<in> set (merged D moments footprints)" "entry_key D e = a"
      by (auto simp: set_dayKeys set_entries)
    then have "e \<in> set (snd (?F a))" by (simp add: group_set)
    then show ?thesis by (metis empty_iff empty_set)
  qed
  have ended: "oldest_day_first D (map ?F ?ks) \<and> (\<forall>g\<in>set (map ?F ?ks). oldest_first D (snd g))"
    if isEnded
  proof
    show "oldest_day_first D (map ?F ?ks)"
      unfolding oldest_day_first_def
      by (rule sorted_wrt_map_mono [where R = "(<)"])
        (use that before in \<open>simp_all add: dayKeys_True_strict\<close>)
    show "\<forall>g\<in>set (map ?F ?ks). oldest_first D (snd g)"
      using that parse by (auto intro!: group_oldest_first)
  qed
  have active: "newest_day_first D (map ?F ?ks) \<and> (\<forall>g\<in>set (map ?F ?ks). newest_first_items D (snd g))"
    if "\<not> isEnded"
  proof
    show "newest_day_first D (map ?F ?ks)"
      unfolding newest_day_first_def
      by (rule sorted_wrt_map_mono [where R = "\<lambda>a b. b < a"])
        (use that before in \<open>simp_all add: dayKeys_False_strict\<close>)
    show "\<forall>g\<in>set (map ?F ?ks). newest_first_items D (snd g)"
      using that parse by (auto intro!: group_newest_first)
  qed
  have "\<forall>g\<in>set (map ?F ?ks). one_day D g \<and> snd g \<noteq> []"
    using same nonempty by auto
  with ended active show ?thesis unfolding TS by blast
qed

lemma utc_sel:
  "timeValue (utc table) = map_of table"
  "localYear (utc table) t = fst (civil_from_days (t div 86400000))"
  "localMonth (utc table) t = fst (snd (civil_from_days (t div 86400000)))"
  "localDate (utc table) t = snd (snd (civil_from_days (t div 86400000)))"
  by (simp_all add: utc_def)

lemma four_digit_utc:
  "four_digit_year (utc instants) ''2024-06-01T10:00:00Z''"
  "four_digit_year (utc instants) ''2024-06-01T10:00:15Z''"
  "four_digit_year (utc instants) ''2024-06-01T10:00:30Z''"
  "four_digit_year (utc instants) ''2024-06-01T10:01:00Z''"
  "four_digit_year (utc instants) ''2024-06-01T10:05:00Z''"
  "four_digit_year (utc instants) ''2024-06-02T09:00:00Z''"
  by (simp_all add: four_digit_year_def utc_sel instants_def civil_utc)

lemma day_of_utc:
  "day_of (utc instants) (MomentEntry ''2024-06-01T10:00:00Z'' m) = (2024, 5, 1)"
  "day_of (utc instants) (MomentEntry ''0999-06-01T10:00:00Z'' m) = (999, 5, 1)"
  by (simp_all add: day_of_def utc_sel instants_def civil_utc)

theorem sort_direction_witness:
  "four_digit_year (utc instants) ''2024-06-01T10:00:00Z''
   \<and> four_digit_year (utc instants) ''2024-06-02T09:00:00Z''
   \<and> four_digit_year (utc instants) ''2024-06-01T10:05:00Z''
   \<and> newest_day_first (utc instants) (TimelineSection (utc instants)
        [mk_moment ''m1'' ''2024-06-01T10:00:00Z'', mk_moment ''m2'' ''2024-06-02T09:00:00Z'']
        [mk_footprint ''f1'' ''2024-06-01T10:05:00Z''] False)
   \<and> list_all (\<lambda>g. newest_first_items (utc instants) (snd g)) (TimelineSection (utc instants)
        [mk_moment ''m1'' ''2024-06-01T10:00:00Z'', mk_moment ''m2'' ''2024-06-02T09:00:00Z'']
        [mk_footprint ''f1'' ''2024-06-01T10:05:00Z''] False)"
proof -
  have h1: "\<forall>m\<in>set [mk_moment ''m1'' ''2024-06-01T10:00:00Z'', mk_moment ''m2'' ''2024-06-02T09:00:00Z''].
      four_digit_year (utc instants) (Moment.created_at m)"
    by (simp add: mk_moment_sel four_digit_utc)
  have h2: "\<forall>f\<in>set [mk_footprint ''f1'' ''2024-06-01T10:05:00Z''].
      four_digit_year (utc instants) (Footprint.created_at f)"
    by (simp add: mk_footprint_sel four_digit_utc)
  from sort_direction [OF h1 h2, of False] show ?thesis
    unfolding list_all_iff using four_digit_utc by blast
qed

text \<open>
  Claim C4 (sort direction): for every input with parseable timestamps an ended trip shows
  the oldest day first. The code does not: both timestamps below parse, the sort of the
  entries by time puts the entry of the year 999 before the entry of 2024, and the day
  map receives its keys in that order; but the day keys are then sorted as strings, and
  the day key pads the month and the day and not the year, so that \<open>2024-06-01\<close> comes
  before \<open>999-06-01\<close> and the ended trip shows the later day first.
\<close>

theorem sort_direction_failing_input:
  "ms (utc instants) ''0999-06-01T10:00:00Z'' = Fin (- 30628677600000)
   \<and> ms (utc instants) ''2024-06-01T10:00:00Z'' = Fin 1717236000000
   \<and> entries (utc instants)
      [mk_moment ''m1'' ''0999-06-01T10:00:00Z'', mk_moment ''m2'' ''2024-06-01T10:00:00Z'']
      ([] :: int Footprint list) True
     = [MomentEntry ''0999-06-01T10:00:00Z'' (mk_moment ''m1'' ''0999-06-01T10:00:00Z''),
        MomentEntry ''2024-06-01T10:00:00Z'' (mk_moment ''m2'' ''2024-06-01T10:00:00Z'')]
   \<and> map fst (grouped (utc instants) (entries (utc instants)
      [mk_moment ''m1'' ''0999-06-01T10:00:00Z'', mk_moment ''m2'' ''2024-06-01T10:00:00Z'']
      ([] :: int Footprint list) True))
     = [''999-06-01'', ''2024-06-01'']
   \<and> dayKeys True (grouped (utc instants) (entries (utc instants)
      [mk_moment ''m1'' ''0999-06-01T10:00:00Z'', mk_moment ''m2'' ''2024-06-01T10:00:00Z'']
      ([] :: int Footprint list) True))
     = [''2024-06-01'', ''999-06-01'']
   \<and> TimelineSection (utc instants)
      [mk_moment ''m1'' ''0999-06-01T10:00:00Z'', mk_moment ''m2'' ''2024-06-01T10:00:00Z'']
      ([] :: int Footprint list) True
     = [(''2024-06-01'', [MomentEntry ''2024-06-01T10:00:00Z'' (mk_moment ''m2'' ''2024-06-01T10:00:00Z'')]),
        (''999-06-01'', [MomentEntry ''0999-06-01T10:00:00Z'' (mk_moment ''m1'' ''0999-06-01T10:00:00Z'')])]"
  by (simp add: eval_timeline)

section \<open>Direction reversal\<close>

lemma dayKeys_False_set:
  "dayKeys False (grouped D es) = rev (sorted_list_of_set (entry_key D ` set es))"
  by (simp only: dayKeys_flip dayKeys_True_set)

lemma dayKeys_entries_flip:
  "dayKeys False (grouped D (entries D moments footprints False))
     = rev (dayKeys True (grouped D (entries D moments footprints True)))"
  by (simp only: dayKeys_False_set dayKeys_True_set set_entries)

lemma map_fst_TimelineSection:
  "map fst (TimelineSection D moments footprints isEnded)
     = dayKeys isEnded (grouped D (entries D moments footprints isEnded))"
  by (simp add: TimelineSection_eq comp_def)

lemma array_sort_short: "length xs \<le> 1 \<Longrightarrow> array_sort cmp xs = xs"
  by (cases xs) (simp_all add: array_sort_Nil array_sort_Cons)

lemma map_get_TimelineSection:
  "map_get (TimelineSection D moments footprints isEnded) dk
     = array_sort (by_time D isEnded)
         (filter (\<lambda>e. entry_key D e = dk) (entries D moments footprints isEnded))"
proof (cases "dk \<in> set (dayKeys isEnded (grouped D (entries D moments footprints isEnded)))")
  case True
  then show ?thesis
    by (simp add: TimelineSection_eq map_get_def map_of_map_restrict)
next
  case False
  then have "filter (\<lambda>e. entry_key D e = dk) (entries D moments footprints isEnded) = []"
    by (auto simp: set_dayKeys filter_empty_conv)
  with False show ?thesis
    by (simp add: TimelineSection_eq map_get_def map_of_map_restrict array_sort_Nil)
qed

lemma mset_group:
  "mset (map_get (TimelineSection D moments footprints isEnded) dk)
     = filter_mset (\<lambda>e. entry_key D e = dk) (mset (merged D moments footprints))"
  by (simp add: map_get_TimelineSection mset_array_sort mset_entries)

lemma distinct_map_perm:
  "mset xs = mset ys \<Longrightarrow> distinct (map h xs) \<Longrightarrow> distinct (map h ys)"
  by (metis mset_eq_imp_distinct_iff mset_map)

lemma distinct_replicate_short: "distinct (replicate n x) \<Longrightarrow> n \<le> 1"
  by (cases n) (auto simp: set_replicate_conv_if split: if_splits)

lemma short_perm_eq:
  assumes "length xs \<le> 1" and "mset xs = mset ys"
  shows "ys = xs"
proof (cases xs)
  case Nil
  with assms(2) show ?thesis by simp
next
  case (Cons a as)
  with assms(1) have xs: "xs = [a]" by simp
  with assms(2) have m: "mset ys = {#a#}" by simp
  then have "length ys = 1" by (metis size_mset size_single)
  then obtain b where "ys = [b]" by (cases ys) auto
  with m xs show ?thesis by simp
qed

lemma group_flip:
  assumes "distinct (map (day_and_time D) (merged D moments footprints))"
  shows "array_sort (by_time D False)
           (filter (\<lambda>e. entry_key D e = dk) (entries D moments footprints False))
         = rev (array_sort (by_time D True)
           (filter (\<lambda>e. entry_key D e = dk) (entries D moments footprints True)))"
proof -
  let ?T = "filter (\<lambda>e. entry_key D e = dk) (entries D moments footprints True)"
  let ?F = "filter (\<lambda>e. entry_key D e = dk) (entries D moments footprints False)"
  have perm: "mset ?T = mset ?F" by (simp add: mset_entries)
  have "distinct (map (day_and_time D) (entries D moments footprints True))"
    using assms by (rule distinct_map_perm [OF mset_entries [symmetric]])
  then have dT: "distinct (map (day_and_time D) ?T)" by (rule distinct_map_filter)
  show ?thesis
  proof (cases "dk = ''NaN-NaN-NaN''")
    case True
    have "map (day_and_time D) ?T = map (\<lambda>e. (dk, NaN)) ?T"
      using True by (auto simp: day_and_time_def entry_key_NaN_iff)
    also have "\<dots> = replicate (length ?T) (dk, NaN)" by (simp add: map_replicate_const)
    finally have "distinct (replicate (length ?T) (dk, NaN))" using dT by simp
    then have short: "length ?T \<le> 1" by (rule distinct_replicate_short)
    then have "?F = ?T"
      using perm by (rule short_perm_eq)
    moreover have "rev ?T = ?T"
      using short by (cases ?T) (simp_all del: filter.simps)
    ultimately show ?thesis
      using short by (simp only: array_sort_short)
  next
    case False
    have parseT: "\<forall>e\<in>set ?T. ms D (entry_created_at e) \<noteq> NaN"
      using False by (auto simp flip: entry_key_NaN_iff)
    have parseF: "\<forall>e\<in>set ?F. ms D (entry_created_at e) \<noteq> NaN"
      using False by (auto simp flip: entry_key_NaN_iff)
    have "map (day_and_time D) ?T = map (\<lambda>t. (dk, Fin t)) (map (time_of D) ?T)"
      using parseT ms_cases [of D]
      by (fastforce simp: day_and_time_def time_of_def)
    with dT have "distinct (map (time_of D) ?T)" by (simp add: distinct_map del: map_map)
    from sort_key_reverse [OF perm this]
    have "sort_key (time_of D) ?T = rev (sort_key (\<lambda>e. - time_of D e) ?F)" .
    then show ?thesis
      by (simp only: array_sort_by_time_True [OF parseT] array_sort_by_time_False [OF parseF]
            rev_rev_ident)
  qed
qed

text \<open>
  Claim C5, as amended. Flipping the trip status reverses the sequence of day groups and
  leaves the membership of every day group unchanged. It reverses the entries within each
  day group as well, so that the whole timeline is reversed on both axes, provided no two
  entries of one day group have the same time, where every unparseable timestamp has the
  same time, NaN: so provided the times of the entries of each day are pairwise different
  and at most one entry has an unparseable timestamp.
\<close>

theorem direction_reversal:
  "map fst (TimelineSection D moments footprints False)
     = rev (map fst (TimelineSection D moments footprints True))
   \<and> (\<forall>dk. mset (map_get (TimelineSection D moments footprints False) dk)
           = mset (map_get (TimelineSection D moments footprints True) dk))
   \<and> (distinct (map (day_and_time D) (merged D moments footprints)) \<longrightarrow>
        TimelineSection D moments footprints False
          = flip_timeline (TimelineSection D moments footprints True))"
proof (intro conjI allI impI)
  show "map fst (TimelineSection D moments footprints False)
     = rev (map fst (TimelineSection D moments footprints True))"
    by (simp only: map_fst_TimelineSection dayKeys_entries_flip)
  show "mset (map_get (TimelineSection D moments footprints False) dk)
           = mset (map_get (TimelineSection D moments footprints True) dk)" for dk
    by (simp only: mset_group)
  assume d: "distinct (map (day_and_time D) (merged D moments footprints))"
  let ?ks = "dayKeys True (grouped D (entries D moments footprints True))"
  let ?G = "\<lambda>dk. array_sort (by_time D True)
             (filter (\<lambda>e. entry_key D e = dk) (entries D moments footprints True))"
  have "TimelineSection D moments footprints False = map (\<lambda>dk. (dk, rev (?G dk))) (rev ?ks)"
    by (simp only: TimelineSection_eq [of D moments footprints False] dayKeys_entries_flip
          group_flip [OF d])
  also have "\<dots> = flip_timeline (map (\<lambda>dk. (dk, ?G dk)) ?ks)"
    by (simp add: flip_timeline_def rev_map comp_def)
  finally show "TimelineSection D moments footprints False
          = flip_timeline (TimelineSection D moments footprints True)"
    by (simp only: TimelineSection_eq [of D moments footprints True])
qed

theorem direction_reversal_witness:
  "distinct (map (day_and_time (utc instants)) (merged (utc instants)
        [mk_moment ''m1'' ''2024-06-01T10:00:00Z'', mk_moment ''m2'' ''2024-06-02T09:00:00Z'']
        [mk_footprint ''f1'' ''2024-06-01T10:05:00Z'']))
   \<and> TimelineSection (utc instants)
        [mk_moment ''m1'' ''2024-06-01T10:00:00Z'', mk_moment ''m2'' ''2024-06-02T09:00:00Z'']
        [mk_footprint ''f1'' ''2024-06-01T10:05:00Z''] False
     = flip_timeline (TimelineSection (utc instants)
        [mk_moment ''m1'' ''2024-06-01T10:00:00Z'', mk_moment ''m2'' ''2024-06-02T09:00:00Z'']
        [mk_footprint ''f1'' ''2024-06-01T10:05:00Z''] True)"
proof -
  have h: "distinct (map (day_and_time (utc instants)) (merged (utc instants)
        [mk_moment ''m1'' ''2024-06-01T10:00:00Z'', mk_moment ''m2'' ''2024-06-02T09:00:00Z'']
        [mk_footprint ''f1'' ''2024-06-01T10:05:00Z'']))"
    by (simp add: eval_timeline day_and_time_def entry_key_def)
  from direction_reversal [of "utc instants"
      "[mk_moment ''m1'' ''2024-06-01T10:00:00Z'', mk_moment ''m2'' ''2024-06-02T09:00:00Z'']"
      "[mk_footprint ''f1'' ''2024-06-01T10:05:00Z'']"] h
  show ?thesis by blast
qed

text \<open>
  Claim C5 as stated fails where two entries of one day have the same time: both sorts
  are stable and leave the two entries in the order of the input, so flipping the status
  does not reverse them. It fails in the same way for two entries whose timestamps are two
  different unparseable strings: they are in one group, and every comparison of the two
  is NaN and counts as zero.
\<close>

lemma utc_junk:
  "ms (utc instants) ''junk'' = NaN"
  "dayKey (utc instants) ''junk'' = ''NaN-NaN-NaN''"
  by (simp_all add: ms_def getTime_def dayKey_invalid utc_sel instants_def)

theorem direction_reversal_counterexample:
  "TimelineSection (utc instants)
      [mk_moment ''m1'' ''2024-06-01T10:00:00Z'', mk_moment ''m2'' ''2024-06-01T10:00:00Z'']
      ([] :: int Footprint list) False
   \<noteq> flip_timeline (TimelineSection (utc instants)
      [mk_moment ''m1'' ''2024-06-01T10:00:00Z'', mk_moment ''m2'' ''2024-06-01T10:00:00Z'']
      ([] :: int Footprint list) True)
   \<and> TimelineSection (utc instants)
      [mk_moment ''m1'' ''garbage'', mk_moment ''m2'' ''junk'']
      ([] :: int Footprint list) False
   \<noteq> flip_timeline (TimelineSection (utc instants)
      [mk_moment ''m1'' ''garbage'', mk_moment ''m2'' ''junk'']
      ([] :: int Footprint list) True)"
  by (simp add: eval_timeline utc_junk flip_timeline_def mk_moment_eq)

section \<open>The loops and the words of the specification\<close>

lemma keep_least_find:
  "find (\<lambda>f. list_all (\<lambda>g. k f \<le> k g) (b # cs)) (b # cs) = Some (keep_least k cs b)"
proof (induction cs arbitrary: b)
  case Nil
  then show ?case by simp
next
  case (Cons c cs)
  show ?case
  proof (cases "k c < k b")
    case True
    have "find (\<lambda>f. list_all (\<lambda>g. k f \<le> k g) (b # c # cs)) (b # c # cs)
            = find (\<lambda>f. list_all (\<lambda>g. k f \<le> k g) (b # c # cs)) (c # cs)"
      using True by simp
    also have "\<dots> = find (\<lambda>f. list_all (\<lambda>g. k f \<le> k g) (c # cs)) (c # cs)"
      using True by (intro find_cong) (auto simp: list_all_iff)
    finally show ?thesis using True Cons.IH [of c] by simp
  next
    case False
    show ?thesis
    proof (cases "list_all (\<lambda>g. k b \<le> k g) cs")
      case all: True
      with False have "find (\<lambda>f. list_all (\<lambda>g. k f \<le> k g) (b # c # cs)) (b # c # cs) = Some b"
        by simp
      moreover from all have "find (\<lambda>f. list_all (\<lambda>g. k f \<le> k g) (b # cs)) (b # cs) = Some b"
        by simp
      ultimately show ?thesis using False Cons.IH [of b] by simp
    next
      case notall: False
      then obtain g where g: "g \<in> set cs" "k g < k b" by (auto simp: list_all_iff)
      with False have "\<not> k c \<le> k g" by simp
      with g(1) have "\<not> list_all (\<lambda>g. k c \<le> k g) (b # c # cs)"
        by (auto simp: list_all_iff)
      then have nc: "list_all (\<lambda>g. k c \<le> k g) (b # c # cs) = False" by simp
      from notall have nb: "list_all (\<lambda>g. k b \<le> k g) (b # c # cs) = False" by simp
      have "find (\<lambda>f. list_all (\<lambda>g. k f \<le> k g) (b # c # cs)) (b # c # cs)
              = find (\<lambda>f. list_all (\<lambda>g. k f \<le> k g) (b # c # cs)) cs"
        by (simp only: find.simps nb nc if_False)
      also have "\<dots> = find (\<lambda>f. list_all (\<lambda>g. k f \<le> k g) (b # cs)) cs"
        using False by (intro find_cong) (auto simp: list_all_iff)
      also have "\<dots> = find (\<lambda>f. list_all (\<lambda>g. k f \<le> k g) (b # cs)) (b # cs)"
        using notall by simp
      finally show ?thesis using False Cons.IH [of b] by (simp only: keep_least.simps if_False)
    qed
  qed
qed

lemma candidate_delta:
  "js_le (delta D t f) (Fin w) \<Longrightarrow> delta D t f = Fin (distance D t f)"
  unfolding distance_def delta_def
  by (cases "js_sub (ms D (Footprint.created_at f)) t") simp_all

lemma nearest_Cons:
  "nearest D t used (f # fs) (best, bestDelta) =
     (if Footprint.id f \<notin> used \<and> js_le (delta D t f) (Fin 120000) \<and> js_lt (delta D t f) bestDelta
      then nearest D t used fs (Some f, delta D t f)
      else nearest D t used fs (best, bestDelta))"
  by (simp add: delta_def MATCH_WINDOW_MS_def Let_def)

lemma candidates_spec_yes:
  "Footprint.id f \<notin> used \<and> js_le (delta D t f) (Fin 120000) \<Longrightarrow>
     candidates_spec D t used (f # fs) = f # candidates_spec D t used fs"
  by (simp add: candidates_spec_def)

lemma candidates_spec_no:
  "\<not> (Footprint.id f \<notin> used \<and> js_le (delta D t f) (Fin 120000)) \<Longrightarrow>
     candidates_spec D t used (f # fs) = candidates_spec D t used fs"
  by (auto simp: candidates_spec_def)

lemma nearest_keep_least:
  assumes "delta D t f0 = Fin (distance D t f0)"
  shows "nearest D t used fs (Some f0, Fin (distance D t f0))
           = (Some (keep_least (distance D t) (candidates_spec D t used fs) f0),
              Fin (distance D t (keep_least (distance D t) (candidates_spec D t used fs) f0)))"
  using assms
proof (induction fs arbitrary: f0)
  case Nil
  then show ?case by (simp add: candidates_spec_def)
next
  case (Cons f fs)
  show ?case
  proof (cases "Footprint.id f \<notin> used \<and> js_le (delta D t f) (Fin 120000)")
    case True
    then have d: "delta D t f = Fin (distance D t f)" using candidate_delta by blast
    note cands = candidates_spec_yes [OF True]
    show ?thesis
    proof (cases "distance D t f < distance D t f0")
      case less: True
      with True d have step: "nearest D t used (f # fs) (Some f0, Fin (distance D t f0))
          = nearest D t used fs (Some f, Fin (distance D t f))"
        by (simp add: nearest_Cons del: nearest.simps)
      from less have k: "keep_least (distance D t) (f # candidates_spec D t used fs) f0
          = keep_least (distance D t) (candidates_spec D t used fs) f"
        by simp
      show ?thesis
        unfolding step cands k by (rule Cons.IH [OF d])
    next
      case notless: False
      with True d have step: "nearest D t used (f # fs) (Some f0, Fin (distance D t f0))
          = nearest D t used fs (Some f0, Fin (distance D t f0))"
        by (simp add: nearest_Cons del: nearest.simps)
      from notless have k: "keep_least (distance D t) (f # candidates_spec D t used fs) f0
          = keep_least (distance D t) (candidates_spec D t used fs) f0"
        by simp
      show ?thesis
        unfolding step cands k by (rule Cons.IH [OF Cons.prems])
    qed
  next
    case False
    note cands = candidates_spec_no [OF False]
    from False have step: "nearest D t used (f # fs) (Some f0, Fin (distance D t f0))
          = nearest D t used fs (Some f0, Fin (distance D t f0))"
      by (auto simp: nearest_Cons simp del: nearest.simps)
    show ?thesis
      unfolding step cands by (rule Cons.IH [OF Cons.prems])
  qed
qed

lemma list_all_candidates_distance:
  assumes "\<forall>g\<in>set cs. delta D t g = Fin (distance D t g)"
    and "f \<in> set cs"
  shows "list_all (\<lambda>g. js_le (delta D t f) (delta D t g)) cs
           = list_all (\<lambda>g. distance D t f \<le> distance D t g) cs"
  using assms by (auto simp: list_all_iff)

lemma nearest_closest_spec:
  "fst (nearest D t used fs (None, PosInf)) = closest_spec D t used fs"
proof (induction fs)
  case Nil
  then show ?case by (simp add: closest_spec_def candidates_spec_def)
next
  case (Cons f fs)
  show ?case
  proof (cases "Footprint.id f \<notin> used \<and> js_le (delta D t f) (Fin 120000)")
    case True
    then have d: "delta D t f = Fin (distance D t f)" using candidate_delta by blast
    note cands = candidates_spec_yes [OF True]
    let ?cs = "f # candidates_spec D t used fs"
    have fin: "\<forall>g\<in>set ?cs. delta D t g = Fin (distance D t g)"
      using d by (auto simp: candidates_spec_def intro: candidate_delta)
    from True d have step: "nearest D t used (f # fs) (None, PosInf)
        = nearest D t used fs (Some f, Fin (distance D t f))"
      by (simp add: nearest_Cons del: nearest.simps)
    have "fst (nearest D t used (f # fs) (None, PosInf))
        = Some (keep_least (distance D t) (candidates_spec D t used fs) f)"
      unfolding step nearest_keep_least [OF d] by simp
    also have "\<dots> = find (\<lambda>x. list_all (\<lambda>g. distance D t x \<le> distance D t g) ?cs) ?cs"
      by (rule keep_least_find [symmetric])
    also have "\<dots> = find (\<lambda>x. list_all (\<lambda>g. js_le (delta D t x) (delta D t g)) ?cs) ?cs"
      by (rule find_cong [OF refl]) (rule list_all_candidates_distance [OF fin, symmetric])
    finally show ?thesis
      unfolding closest_spec_def cands Let_def .
  next
    case False
    note cands = candidates_spec_no [OF False]
    from False have step: "nearest D t used (f # fs) (None, PosInf) = nearest D t used fs (None, PosInf)"
      by (auto simp: nearest_Cons simp del: nearest.simps)
    show ?thesis
      unfolding step using Cons.IH by (simp only: closest_spec_def cands)
  qed
qed

lemma match_moments_greedy_spec:
  "match_moments D fps moments (used, out) =
     (used \<union> Footprint.id ` set (footprints_of (greedy_spec D fps moments used)),
      out @ greedy_spec D fps moments used)"
proof (induction moments arbitrary: used out)
  case Nil
  then show ?case by simp
next
  case (Cons m moments)
  show ?case
  proof (cases "closest_spec D (ms D (Moment.created_at m)) used fps")
    case None
    then show ?thesis
      by (simp add: nearest_closest_spec Let_def Cons.IH)
  next
    case (Some f)
    then show ?thesis
      by (simp add: nearest_closest_spec Let_def Cons.IH)
  qed
qed

lemma newest_first_pos:
  assumes "ms D (Footprint.created_at a) \<noteq> NaN" and "ms D (Footprint.created_at b) \<noteq> NaN"
  shows "js_lt (Fin 0) (newest_first D a b) \<longleftrightarrow> - footprint_time D b < - footprint_time D a"
  using assms ms_cases [of D "Footprint.created_at a"] ms_cases [of D "Footprint.created_at b"]
  by (auto simp: newest_first_def footprint_time_def js_sub_def)

lemma fpsForMatching_newest_to_oldest:
  assumes "\<forall>f\<in>set footprints. ms D (Footprint.created_at f) \<noteq> NaN"
  shows "array_sort (newest_first D) footprints = newest_to_oldest D footprints"
  unfolding newest_to_oldest_def
  by (rule array_sort_sort_key) (use assms in \<open>simp add: newest_first_pos\<close>)

lemma merged_reconcile_scan:
  "merged D moments footprints
     = reconcile_scan D (array_sort (newest_first D) footprints) moments"
  by (simp add: merged_def reconcile_scan_def Let_def match_moments_greedy_spec remaining_eq)

lemma merged_reconcile_spec:
  assumes "\<forall>f\<in>set footprints. ms D (Footprint.created_at f) \<noteq> NaN"
  shows "merged D moments footprints = reconcile_spec D moments footprints"
  by (simp only: merged_reconcile_scan reconcile_spec_def fpsForMatching_newest_to_oldest [OF assms])

text \<open>
  Claim C7, as amended. The entries the loops produce are those of the description in the
  words of the specification, over the scan the loops run through, which is the sorted
  copy of the footprints: the moments in input order, each with the unused candidate of
  least distance within the window, the first one of the scan among equals. When the
  timestamps of all footprints parse, that scan is the one from the newest footprint to
  the oldest, and the rendered timeline holds exactly the entries of the description. For
  the two moments at 10:00:00Z and 10:00:30Z and the footprint at 10:00:15Z the first
  moment takes the footprint: one combined entry and one moment-only entry.
\<close>

theorem greedy_matching:
  "merged D moments footprints
     = reconcile_scan D (array_sort (newest_first D) footprints) moments
   \<and> ((\<forall>f\<in>set footprints. ms D (Footprint.created_at f) \<noteq> NaN) \<longrightarrow>
      array_sort (newest_first D) footprints = newest_to_oldest D footprints \<and>
      merged D moments footprints = reconcile_spec D moments footprints \<and>
      mset (all_entries (TimelineSection D moments footprints isEnded))
        = mset (reconcile_spec D moments footprints))
   \<and> merged (utc instants)
        [mk_moment ''m1'' ''2024-06-01T10:00:00Z'', mk_moment ''m2'' ''2024-06-01T10:00:30Z'']
        [mk_footprint ''f1'' ''2024-06-01T10:00:15Z'']
      = [Combined ''2024-06-01T10:00:00Z'' (mk_moment ''m1'' ''2024-06-01T10:00:00Z'')
           (mk_footprint ''f1'' ''2024-06-01T10:00:15Z''),
         MomentEntry ''2024-06-01T10:00:30Z'' (mk_moment ''m2'' ''2024-06-01T10:00:30Z'')]
   \<and> TimelineSection (utc instants)
        [mk_moment ''m1'' ''2024-06-01T10:00:00Z'', mk_moment ''m2'' ''2024-06-01T10:00:30Z'']
        [mk_footprint ''f1'' ''2024-06-01T10:00:15Z''] True
      = [(''2024-06-01'',
          [Combined ''2024-06-01T10:00:00Z'' (mk_moment ''m1'' ''2024-06-01T10:00:00Z'')
             (mk_footprint ''f1'' ''2024-06-01T10:00:15Z''),
           MomentEntry ''2024-06-01T10:00:30Z'' (mk_moment ''m2'' ''2024-06-01T10:00:30Z'')])]
   \<and> TimelineSection (utc instants)
        [mk_moment ''m1'' ''2024-06-01T10:00:00Z'', mk_moment ''m2'' ''2024-06-01T10:00:30Z'']
        [mk_footprint ''f1'' ''2024-06-01T10:00:15Z''] False
      = [(''2024-06-01'',
          [MomentEntry ''2024-06-01T10:00:30Z'' (mk_moment ''m2'' ''2024-06-01T10:00:30Z''),
           Combined ''2024-06-01T10:00:00Z'' (mk_moment ''m1'' ''2024-06-01T10:00:00Z'')
             (mk_footprint ''f1'' ''2024-06-01T10:00:15Z'')])]"
proof (intro conjI impI)
  show "merged D moments footprints
     = reconcile_scan D (array_sort (newest_first D) footprints) moments"
    by (rule merged_reconcile_scan)
next
  assume parse: "\<forall>f\<in>set footprints. ms D (Footprint.created_at f) \<noteq> NaN"
  show "array_sort (newest_first D) footprints = newest_to_oldest D footprints"
    by (rule fpsForMatching_newest_to_oldest [OF parse])
  show "merged D moments footprints = reconcile_spec D moments footprints"
    by (rule merged_reconcile_spec [OF parse])
  then show "mset (all_entries (TimelineSection D moments footprints isEnded))
        = mset (reconcile_spec D moments footprints)"
    by (simp only: mset_all_entries)
qed (simp_all add: eval_timeline)

theorem greedy_matching_witness:
  "ms (utc instants) ''2024-06-01T10:00:00Z'' \<noteq> NaN
   \<and> ms (utc instants) ''2024-06-01T10:00:30Z'' \<noteq> NaN
   \<and> merged (utc instants) [mk_moment ''m1'' ''2024-06-01T10:00:15Z'']
        [mk_footprint ''f1'' ''2024-06-01T10:00:00Z'', mk_footprint ''f2'' ''2024-06-01T10:00:30Z'']
      = reconcile_spec (utc instants) [mk_moment ''m1'' ''2024-06-01T10:00:15Z'']
        [mk_footprint ''f1'' ''2024-06-01T10:00:00Z'', mk_footprint ''f2'' ''2024-06-01T10:00:30Z'']
   \<and> merged (utc instants) [mk_moment ''m1'' ''2024-06-01T10:00:15Z'']
        [mk_footprint ''f1'' ''2024-06-01T10:00:00Z'', mk_footprint ''f2'' ''2024-06-01T10:00:30Z'']
      = [Combined ''2024-06-01T10:00:15Z'' (mk_moment ''m1'' ''2024-06-01T10:00:15Z'')
           (mk_footprint ''f2'' ''2024-06-01T10:00:30Z''),
         FootprintEntry ''2024-06-01T10:00:00Z'' (mk_footprint ''f1'' ''2024-06-01T10:00:00Z'')]"
proof -
  have h: "\<forall>f\<in>set [mk_footprint ''f1'' ''2024-06-01T10:00:00Z'',
                    mk_footprint ''f2'' ''2024-06-01T10:00:30Z''].
             ms (utc instants) (Footprint.created_at f) \<noteq> NaN"
    by (simp add: mk_footprint_sel ms_utc)
  have e: "merged (utc instants) [mk_moment ''m1'' ''2024-06-01T10:00:15Z'']
        [mk_footprint ''f1'' ''2024-06-01T10:00:00Z'', mk_footprint ''f2'' ''2024-06-01T10:00:30Z'']
      = [Combined ''2024-06-01T10:00:15Z'' (mk_moment ''m1'' ''2024-06-01T10:00:15Z'')
           (mk_footprint ''f2'' ''2024-06-01T10:00:30Z''),
         FootprintEntry ''2024-06-01T10:00:00Z'' (mk_footprint ''f1'' ''2024-06-01T10:00:00Z'')]"
    by (simp add: eval_timeline)
  from greedy_matching [where D = "utc instants"
        and moments = "[mk_moment ''m1'' ''2024-06-01T10:00:15Z'']"
        and footprints = "[mk_footprint ''f1'' ''2024-06-01T10:00:00Z'',
          mk_footprint ''f2'' ''2024-06-01T10:00:30Z'']"] h
  have "merged (utc instants) [mk_moment ''m1'' ''2024-06-01T10:00:15Z'']
        [mk_footprint ''f1'' ''2024-06-01T10:00:00Z'', mk_footprint ''f2'' ''2024-06-01T10:00:30Z'']
      = reconcile_spec (utc instants) [mk_moment ''m1'' ''2024-06-01T10:00:15Z'']
        [mk_footprint ''f1'' ''2024-06-01T10:00:00Z'', mk_footprint ''f2'' ''2024-06-01T10:00:30Z'']"
    by blast
  with e show ?thesis by (simp add: ms_utc)
qed

text \<open>
  Claim C7 as stated fails where a footprint has an unparseable timestamp: the scan is
  then not from the newest to the oldest. Every comparison of the sort with that footprint
  is NaN and counts as zero, so the sort takes the array below to be in order and leaves
  it as it is, the older footprint first. The moment at 10:00:15Z is 15 s from the
  footprint at 10:00:00Z and from the footprint at 10:00:30Z, and it takes the older one,
  which the scan meets first.
\<close>

theorem greedy_matching_counterexample:
  "ms (utc instants) ''2024-06-01T10:00:00Z'' = Fin 1717236000000
   \<and> ms (utc instants) ''2024-06-01T10:00:15Z'' = Fin 1717236015000
   \<and> ms (utc instants) ''2024-06-01T10:00:30Z'' = Fin 1717236030000
   \<and> array_sort (newest_first (utc instants))
        [mk_footprint ''f1'' ''2024-06-01T10:00:00Z'', mk_footprint ''g'' ''garbage'',
         mk_footprint ''f2'' ''2024-06-01T10:00:30Z'']
      = [mk_footprint ''f1'' ''2024-06-01T10:00:00Z'', mk_footprint ''g'' ''garbage'',
         mk_footprint ''f2'' ''2024-06-01T10:00:30Z'']
   \<and> merged (utc instants) [mk_moment ''m1'' ''2024-06-01T10:00:15Z'']
        [mk_footprint ''f1'' ''2024-06-01T10:00:00Z'', mk_footprint ''g'' ''garbage'',
         mk_footprint ''f2'' ''2024-06-01T10:00:30Z'']
      = [Combined ''2024-06-01T10:00:15Z'' (mk_moment ''m1'' ''2024-06-01T10:00:15Z'')
           (mk_footprint ''f1'' ''2024-06-01T10:00:00Z''),
         FootprintEntry ''garbage'' (mk_footprint ''g'' ''garbage''),
         FootprintEntry ''2024-06-01T10:00:30Z'' (mk_footprint ''f2'' ''2024-06-01T10:00:30Z'')]"
  by (simp add: eval_timeline)

section \<open>No effect on the input arrays\<close>

declare match_loop.simps [simp del] remaining_loop.simps [simp del]

lemma match_loop_pure:
  assumes "out < length (entry_arrays h)"
  shows "match_loop D fps moments out i used h =
     (case match_moments D (footprint_arrays h ! fps) (drop i (moment_arrays h ! moments))
             (used, entry_arrays h ! out) of
        (used', es) \<Rightarrow> (used', h\<lparr>entry_arrays := (entry_arrays h)[out := es]\<rparr>))"
  using assms
proof (induction D fps moments out i used h rule: match_loop.induct)
  case (1 D fps moments out i used h)
  show ?case
  proof (cases "i < length (moment_arrays h ! moments)")
    case False
    then show ?thesis
      by (subst match_loop.simps) simp
  next
    case True
    let ?m = "moment_arrays h ! moments ! i"
    have dr: "drop i (moment_arrays h ! moments) = ?m # drop (Suc i) (moment_arrays h ! moments)"
      using True by (simp add: Cons_nth_drop_Suc)
    show ?thesis
    proof (cases "fst (nearest D (ms D (Moment.created_at ?m)) used (footprint_arrays h ! fps)
                        (None, PosInf))")
      case None
      let ?h = "push_entry out (MomentEntry (Moment.created_at ?m) ?m) h"
      have len: "out < length (entry_arrays ?h)" using "1.prems" by (simp add: push_entry_def)
      have "match_loop D fps moments out i used h = match_loop D fps moments out (Suc i) used ?h"
        using True None by (subst match_loop.simps) (simp add: Let_def)
      also note "1.IH"(1) [OF True refl refl None len]
      finally show ?thesis
        using None "1.prems" by (simp add: dr Let_def push_entry_def)
    next
      case (Some best)
      let ?h = "push_entry out (Combined (Moment.created_at ?m) ?m best) h"
      have len: "out < length (entry_arrays ?h)" using "1.prems" by (simp add: push_entry_def)
      have "match_loop D fps moments out i used h
              = match_loop D fps moments out (Suc i) (insert (Footprint.id best) used) ?h"
        using True Some by (subst match_loop.simps) (simp add: Let_def)
      also note "1.IH"(2) [OF True refl refl Some len]
      finally show ?thesis
        using Some "1.prems" by (simp add: dr Let_def push_entry_def)
    qed
  qed
qed

lemma remaining_loop_pure:
  assumes "out < length (entry_arrays h)"
  shows "remaining_loop fps out i used h =
     h\<lparr>entry_arrays := (entry_arrays h)
        [out := remaining used (drop i (footprint_arrays h ! fps)) (entry_arrays h ! out)]\<rparr>"
  using assms
proof (induction fps out i used h rule: remaining_loop.induct)
  case (1 fps out i used h)
  show ?case
  proof (cases "i < length (footprint_arrays h ! fps)")
    case False
    then show ?thesis
      by (subst remaining_loop.simps) simp
  next
    case True
    let ?f = "footprint_arrays h ! fps ! i"
    have dr: "drop i (footprint_arrays h ! fps) = ?f # drop (Suc i) (footprint_arrays h ! fps)"
      using True by (simp add: Cons_nth_drop_Suc)
    show ?thesis
    proof (cases "Footprint.id ?f \<in> used")
      case used: True
      have "remaining_loop fps out i used h = remaining_loop fps out (Suc i) used h"
        using True used by (subst remaining_loop.simps) (simp add: Let_def)
      also note "1.IH"(1) [OF True refl used "1.prems"]
      finally show ?thesis using used by (simp add: dr)
    next
      case unused: False
      let ?h = "push_entry out (FootprintEntry (Footprint.created_at ?f) ?f) h"
      have len: "out < length (entry_arrays ?h)" using "1.prems" by (simp add: push_entry_def)
      have "remaining_loop fps out i used h = remaining_loop fps out (Suc i) used ?h"
        using True unused by (subst remaining_loop.simps) (simp add: Let_def)
      also note "1.IH"(2) [OF True refl unused len]
      finally show ?thesis using unused "1.prems" by (simp add: dr push_entry_def)
    qed
  qed
qed

lemma entries_store_pure:
  assumes "footprints < length (footprint_arrays h)"
  shows "entries_store D moments footprints isEnded h =
     (length (entry_arrays h),
      h\<lparr>footprint_arrays :=
          footprint_arrays h @ [array_sort (newest_first D) (footprint_arrays h ! footprints)],
        entry_arrays :=
          entry_arrays h @
          [entries D (moment_arrays h ! moments) (footprint_arrays h ! footprints) isEnded]\<rparr>)"
  using assms
  by (simp add: entries_store_def spread_footprints_def sort_footprints_def new_entries_def
        sort_entries_def match_loop_pure remaining_loop_pure entries_def merged_def Let_def
        nth_append split: prod.splits)

text \<open>
  Claim C9 (no side effects on the inputs). Running the computation of the entries in a
  store leaves every array that was there before as it was, the moments array and the
  footprints array among them, with the same elements in the same order: the sort works
  on a copy of the footprints. The new array it returns holds the entries the function
  on lists computes.
\<close>

theorem no_side_effects:
  assumes "moments < length (moment_arrays h)" and "footprints < length (footprint_arrays h)"
  shows "moment_arrays (snd (entries_store D moments footprints isEnded h)) ! moments
           = moment_arrays h ! moments
       \<and> footprint_arrays (snd (entries_store D moments footprints isEnded h)) ! footprints
           = footprint_arrays h ! footprints
       \<and> moment_arrays (snd (entries_store D moments footprints isEnded h)) = moment_arrays h
       \<and> take (length (footprint_arrays h))
             (footprint_arrays (snd (entries_store D moments footprints isEnded h)))
           = footprint_arrays h
       \<and> take (length (entry_arrays h))
             (entry_arrays (snd (entries_store D moments footprints isEnded h)))
           = entry_arrays h
       \<and> entry_arrays (snd (entries_store D moments footprints isEnded h))
             ! fst (entries_store D moments footprints isEnded h)
           = entries D (moment_arrays h ! moments) (footprint_arrays h ! footprints) isEnded"
  using assms by (simp add: entries_store_pure nth_append)

theorem no_side_effects_witness:
  "0 < length (moment_arrays store0) \<and> 0 < length (footprint_arrays store0)
   \<and> moment_arrays (snd (entries_store (utc instants) 0 0 True store0)) ! 0
       = [mk_moment ''m1'' ''2024-06-01T10:00:00Z'']
   \<and> footprint_arrays (snd (entries_store (utc instants) 0 0 True store0)) ! 0
       = [mk_footprint ''f1'' ''2024-06-01T10:01:00Z'', mk_footprint ''f2'' ''2024-06-01T10:05:00Z'']"
proof -
  have h1: "0 < length (moment_arrays store0)" by (simp add: store0_def)
  have h2: "0 < length (footprint_arrays store0)" by (simp add: store0_def)
  from no_side_effects [OF h1 h2, of "utc instants" True] h1 h2 show ?thesis
    by (simp add: store0_def)
qed

text \<open>
  The copy is what keeps the input as it was: the array the matching works on is in the
  other order, and the same sort applied in place to the input array would reorder it.
\<close>

lemma fpsForMatching_is_sorted_copy:
  "footprint_arrays (snd (entries_store (utc instants) 0 0 True store0)) ! 1
     = [mk_footprint ''f2'' ''2024-06-01T10:05:00Z'', mk_footprint ''f1'' ''2024-06-01T10:01:00Z'']"
  by (simp add: entries_store_pure store0_def array_sort_def newest_first_def js_sub_def
        mk_footprint_sel ms_utc)

lemma sorting_in_place_changes_the_input:
  "footprint_arrays (sort_footprints (newest_first (utc instants)) 0 store0) ! 0
     = [mk_footprint ''f2'' ''2024-06-01T10:05:00Z'', mk_footprint ''f1'' ''2024-06-01T10:01:00Z'']"
  by (simp add: sort_footprints_def store0_def array_sort_def newest_first_def js_sub_def
        mk_footprint_sel ms_utc)

section \<open>Determinism\<close>

lemma same_dates_ms: "same_dates D D' s \<Longrightarrow> ms D s = ms D' s"
  by (simp add: same_dates_def ms_def)

lemma same_dates_dayKey: "same_dates D D' s \<Longrightarrow> dayKey D s = dayKey D' s"
  by (auto simp: same_dates_def dayKey_def getFullYear_def getMonth_def getDate_def
        split: option.splits)

lemma insert_by_cong:
  "\<forall>y\<in>set ys. cmp x y = cmp' x y \<Longrightarrow> insert_by cmp x ys = insert_by cmp' x ys"
  by (induction ys) auto

lemma array_sort_cong:
  "\<forall>x\<in>set xs. \<forall>y\<in>set xs. cmp x y = cmp' x y \<Longrightarrow> array_sort cmp xs = array_sort cmp' xs"
proof (induction xs)
  case Nil
  then show ?case by (simp add: array_sort_Nil)
next
  case (Cons x xs)
  then have "array_sort cmp xs = array_sort cmp' xs" by simp
  moreover have "insert_by cmp x (array_sort cmp' xs) = insert_by cmp' x (array_sort cmp' xs)"
    using Cons.prems by (intro insert_by_cong) (simp add: set_array_sort)
  ultimately show ?case by (simp add: array_sort_Cons)
qed

lemma nearest_cong:
  "\<forall>f\<in>set fs. ms D (Footprint.created_at f) = ms D' (Footprint.created_at f) \<Longrightarrow>
     nearest D t used fs st = nearest D' t used fs st"
proof (induction fs arbitrary: st)
  case Nil
  then show ?case by (cases st) simp
next
  case (Cons f fs)
  then show ?case by (cases st) (simp add: Let_def)
qed

lemma match_moments_cong:
  assumes "\<forall>f\<in>set fps. ms D (Footprint.created_at f) = ms D' (Footprint.created_at f)"
  shows "\<forall>m\<in>set moments. ms D (Moment.created_at m) = ms D' (Moment.created_at m) \<Longrightarrow>
     match_moments D fps moments st = match_moments D' fps moments st"
proof (induction moments arbitrary: st)
  case Nil
  then show ?case by (cases st) simp
next
  case (Cons m moments)
  obtain used out where st: "st = (used, out)" by (cases st)
  from Cons.prems have t: "ms D (Moment.created_at m) = ms D' (Moment.created_at m)" by simp
  from Cons.prems have ih: "match_moments D fps moments st' = match_moments D' fps moments st'"
    for st'
    by (intro Cons.IH) simp
  show ?case
    unfolding st
    by (simp add: Let_def t ih nearest_cong [OF assms, of _ _ "(None, PosInf)"]
          split: option.split)
qed

lemma merged_cong:
  assumes "list_all (same_dates D D') (stamps moments footprints)"
  shows "merged D moments footprints = merged D' moments footprints"
proof -
  from assms have m: "\<forall>m\<in>set moments. ms D (Moment.created_at m) = ms D' (Moment.created_at m)"
    and f: "\<forall>f\<in>set footprints. ms D (Footprint.created_at f) = ms D' (Footprint.created_at f)"
    by (auto simp: stamps_def list_all_iff intro: same_dates_ms)
  have s: "array_sort (newest_first D) footprints = array_sort (newest_first D') footprints"
    by (rule array_sort_cong) (use f in \<open>simp add: newest_first_def\<close>)
  have f': "\<forall>g\<in>set (array_sort (newest_first D') footprints).
      ms D (Footprint.created_at g) = ms D' (Footprint.created_at g)"
    using f by (simp add: set_array_sort)
  show ?thesis
    by (simp add: merged_def Let_def s match_moments_cong [OF f' m])
qed

lemma merged_same_dates:
  assumes "list_all (same_dates D D') (stamps moments footprints)"
    and "e \<in> set (merged D moments footprints)"
  shows "same_dates D D' (entry_created_at e)"
  using assms merged_created_at [OF assms(2)]
  by (auto simp: stamps_def list_all_iff)

lemma entries_cong:
  assumes "list_all (same_dates D D') (stamps moments footprints)"
  shows "entries D moments footprints isEnded = entries D' moments footprints isEnded"
proof -
  have "array_sort (by_time D isEnded) (merged D moments footprints)
      = array_sort (by_time D' isEnded) (merged D moments footprints)"
    by (rule array_sort_cong)
      (auto simp: by_time_def dest!: merged_same_dates [OF assms] same_dates_ms)
  then show ?thesis by (simp add: entries_def merged_cong [OF assms])
qed

lemma entry_key_cong:
  assumes "list_all (same_dates D D') (stamps moments footprints)"
    and "e \<in> set (entries D moments footprints isEnded)"
  shows "entry_key D e = entry_key D' e"
  using merged_same_dates [OF assms(1)] assms(2)
  by (simp add: set_entries entry_key_def same_dates_dayKey)

lemma grouped_cong:
  "\<forall>e\<in>set es. entry_key D e = entry_key D' e \<Longrightarrow> grouped D es = grouped D' es"
  unfolding grouped_def entry_key_def
  by (rule foldl_cong) simp_all

text \<open>
  Claim C8, as amended. The component is a function of its three inputs and of the
  answers of \<^verbatim>\<open>Date\<close> on the timestamps in them, and of nothing else. Two invocations
  with the same moments, the same footprints and the same flag, in environments that give
  the same dates for these timestamps (so, in particular, in one process and time zone),
  produce the same entries, the same map from day keys to entries, the same order of the
  day keys and the same rendered timeline.
\<close>

theorem determinism:
  assumes "moments' = moments" and "footprints' = footprints" and "isEnded' = isEnded"
    and "list_all (same_dates D D') (stamps moments footprints)"
  shows "entries D' moments' footprints' isEnded' = entries D moments footprints isEnded
       \<and> grouped D' (entries D' moments' footprints' isEnded')
           = grouped D (entries D moments footprints isEnded)
       \<and> dayKeys isEnded' (grouped D' (entries D' moments' footprints' isEnded'))
           = dayKeys isEnded (grouped D (entries D moments footprints isEnded))
       \<and> TimelineSection D' moments' footprints' isEnded'
           = TimelineSection D moments footprints isEnded"
proof -
  let ?E = "entries D moments footprints isEnded"
  have E: "entries D' moments footprints isEnded = ?E"
    by (rule entries_cong [OF assms(4), symmetric])
  have k: "\<forall>e\<in>set ?E. entry_key D e = entry_key D' e"
    using entry_key_cong [OF assms(4)] by blast
  have G: "grouped D' ?E = grouped D ?E"
    by (rule grouped_cong [symmetric]) (rule k)
  have bt: "array_sort (by_time D' isEnded) (map_get (grouped D ?E) dk)
      = array_sort (by_time D isEnded) (map_get (grouped D ?E) dk)" for dk
    by (rule array_sort_cong [symmetric])
      (auto simp: map_get_grouped set_entries by_time_def
        dest!: merged_same_dates [OF assms(4)] same_dates_ms)
  show ?thesis
    unfolding assms(1,2,3) by (simp add: TimelineSection_def Let_def E G bt)
qed

theorem determinism_witness:
  "list_all (same_dates (utc instants) (utc ((''tomorrow'', 0) # instants)))
      (stamps [mk_moment ''m1'' ''2024-06-01T10:00:00Z'', mk_moment ''m2'' ''garbage'']
         [mk_footprint ''f1'' ''2024-06-01T10:01:00Z''])
   \<and> TimelineSection (utc ((''tomorrow'', 0) # instants))
        [mk_moment ''m1'' ''2024-06-01T10:00:00Z'', mk_moment ''m2'' ''garbage'']
        [mk_footprint ''f1'' ''2024-06-01T10:01:00Z''] True
     = TimelineSection (utc instants)
        [mk_moment ''m1'' ''2024-06-01T10:00:00Z'', mk_moment ''m2'' ''garbage'']
        [mk_footprint ''f1'' ''2024-06-01T10:01:00Z''] True"
proof -
  have h: "list_all (same_dates (utc instants) (utc ((''tomorrow'', 0) # instants)))
      (stamps [mk_moment ''m1'' ''2024-06-01T10:00:00Z'', mk_moment ''m2'' ''garbage'']
         [mk_footprint ''f1'' ''2024-06-01T10:01:00Z''])"
    by (simp add: stamps_def same_dates_def utc_sel instants_def mk_moment_sel mk_footprint_sel)
  from determinism [OF refl refl refl h, of True] h show ?thesis by blast
qed

text \<open>
  Claim C8 as stated fails between two invocations in different time zones: the day of an
  entry is its local day. The same moment, at 10:00 UTC on 1 June 2024, is in the day
  group of 1 June for a process in UTC and in the day group of 2 June for a process
  fourteen hours ahead of UTC, where it is midnight.
\<close>

lemma zone_14h:
  "ms (zone 50400000 instants) ''2024-06-01T10:00:00Z'' = Fin 1717236000000"
  "dayKey (zone 50400000 instants) ''2024-06-01T10:00:00Z'' = ''2024-06-02''"
   apply (simp add: ms_def getTime_def zone_def instants_def)
  apply (subst dayKey_valid [where t = 1717236000000];
         simp add: zone_def instants_def civil_utc digits_small digits_large digit_chars
           padStart_def)
  done

theorem determinism_counterexample:
  "TimelineSection (utc instants) [mk_moment ''m1'' ''2024-06-01T10:00:00Z'']
      ([] :: int Footprint list) True
     = [(''2024-06-01'',
         [MomentEntry ''2024-06-01T10:00:00Z'' (mk_moment ''m1'' ''2024-06-01T10:00:00Z'')])]
   \<and> TimelineSection (zone 50400000 instants) [mk_moment ''m1'' ''2024-06-01T10:00:00Z'']
      ([] :: int Footprint list) True
     = [(''2024-06-02'',
         [MomentEntry ''2024-06-01T10:00:00Z'' (mk_moment ''m1'' ''2024-06-01T10:00:00Z'')])]"
  by (simp add: eval_timeline zone_14h)

end
